theory Spec2Isabelle
  imports Main "HOL-Library.Sublist"
begin

section \<open>The parsing context of the walt compiler (parser/context.js)\<close>

subsection \<open>Tokens and the token stream\<close>

text \<open>
  Modelled from the spec: the types \<open>TokenType\<close> and \<open>TokenStream\<close> are imported by
  context.js from flow/types and utils/token-stream, which are not part of the source slice.
  A position has a line index, a column and the text of its source line; a token has a
  value, a type tag and a start position (the fields context.js reads).
\<close>

record Position =
  line :: int
  col :: int
  sourceLine :: string

record TokenType =
  tok_value :: string
  tok_type :: string
  tok_start :: Position

text \<open>
  A token stream is an object with the methods \<open>next()\<close> and \<open>last()\<close>. It is modelled by
  what it can be observed to do: \<open>next_token\<close> is the token \<open>next()\<close> returns (\<open>None\<close> for
  \<open>undefined\<close>/\<open>null\<close>, the end of the input), \<open>next_stream\<close> is the stream after that call,
  and \<open>last_token\<close> is what \<open>last()\<close> returns. Both calls return; neither throws.
\<close>

codatatype TokenStream =
  TokenStream (next_token: "TokenType option") (next_stream: TokenStream)
    (last_token: "TokenType option")

text \<open>
  Modelled from the spec: a stream over a finite list of tokens (utils/token-stream is not
  part of the source slice). \<open>next()\<close> returns the tokens in order and \<open>undefined\<close> after
  the last one; \<open>last()\<close> returns the most recently produced token, kept in \<open>l\<close>.
\<close>

primcorec stream_of :: "TokenType option \<Rightarrow> TokenType list \<Rightarrow> TokenStream" where
  "next_token (stream_of l ts) = (case ts of [] \<Rightarrow> None | t # _ \<Rightarrow> Some t)"
| "next_stream (stream_of l ts) =
     (case ts of [] \<Rightarrow> stream_of l [] | t # ts' \<Rightarrow> stream_of (Some t) ts')"
| "last_token (stream_of l ts) = l"

subsection \<open>The context\<close>

text \<open>
  The class \<open>Context\<close>: the current token (\<open>None\<close> when it is \<open>null\<close> or \<open>undefined\<close>), the
  stream, the file name (a declared field the constructor never assigns: \<open>None\<close> is
  \<open>undefined\<close>) and the source lines.
\<close>

record Context =
  token :: "TokenType option"
  stream :: TokenStream
  filename :: "string option"
  lines :: "string list"

text \<open>What an operation throws: the \<open>SyntaxError\<close> built by the diagnostics, with its
  message, or the \<open>TypeError\<close> of the JavaScript runtime (a property read on \<open>null\<close> or
  \<open>undefined\<close>, a call of something that is not a function).\<close>

datatype error = SyntaxError string | TypeError

text \<open>\<open>next()\<close>: \<open>this.token = this.stream.next()\<close>.\<close>

definition ctx_next :: "Context \<Rightarrow> Context" where
  "ctx_next c = c\<lparr>token := next_token (stream c), stream := next_stream (stream c)\<rparr>"

text \<open>\<open>k\<close> calls of \<open>next()\<close> in a row.\<close>

fun advance :: "nat \<Rightarrow> Context \<Rightarrow> Context" where
  "advance 0 c = c"
| "advance (Suc k) c = advance k (ctx_next c)"

subsection \<open>Matcher\<close>

text \<open>
  \<open>eat(value, type)\<close>. The value is a \<open>string[]\<close> or \<open>null\<close> (\<open>None\<close>); an array is truthy
  even when empty. The type is an optional string (\<open>None\<close> when omitted); a token's type is
  a string, so \<open>this.token.type === type\<close> is false for an omitted type. The result is the
  returned boolean and the context after the call.
\<close>

definition eat :: "Context \<Rightarrow> string list option \<Rightarrow> string option \<Rightarrow> bool \<times> Context" where
  "eat c v ty =
     (case token c of
        None \<Rightarrow> (False, c)
      | Some t \<Rightarrow>
          (case v of
             Some vs \<Rightarrow>
               (if tok_value t \<in> set vs then (True, ctx_next c) else (False, c))
           | None \<Rightarrow>
               (if Some (tok_type t) = ty then (True, ctx_next c) else (False, c))))"

text \<open>The claim's wording of a match: a current token exists and, when a value set is
  given, its value is a member of the set; otherwise its type equals the given type.\<close>

definition current_matches :: "Context \<Rightarrow> string list option \<Rightarrow> string option \<Rightarrow> bool" where
  "current_matches c v ty =
     (case token c of
        None \<Rightarrow> False
      | Some t \<Rightarrow>
          (case v of Some vs \<Rightarrow> tok_value t \<in> set vs | None \<Rightarrow> ty = Some (tok_type t)))"

subsection \<open>Diagnostics\<close>

text \<open>
  \<open>generateErrorString\<close> is imported from utils/generate-error and is not part of the
  source slice: it is the parameter \<open>gen\<close>, from the message, the detail, the current
  token, the file name and the function identifier to the text of the error.
\<close>

type_synonym formatter =
  "string \<Rightarrow> string \<Rightarrow> TokenType option \<Rightarrow> string \<Rightarrow> string \<Rightarrow> string"

text \<open>\<open>error || ""\<close> on an optional string and \<open>this.filename || "unknown"\<close>: the empty
  string is falsy, as \<open>undefined\<close> is.\<close>

definition or_default :: "string option \<Rightarrow> string \<Rightarrow> string" where
  "or_default s d = (case s of None \<Rightarrow> d | Some x \<Rightarrow> if x = [] then d else x)"

definition syntaxError :: "formatter \<Rightarrow> Context \<Rightarrow> string \<Rightarrow> string option \<Rightarrow> error" where
  "syntaxError gen c msg err =
     (let functionId = ''unknown''
      in SyntaxError
           (gen msg (or_default err []) (token c) (or_default (filename c) ''unknown'')
              functionId))"

text \<open>\<open>String(value)\<close> of an array of strings joins them with commas; of an omitted
  argument it is \<open>"undefined"\<close>.\<close>

fun join_comma :: "string list \<Rightarrow> string" where
  "join_comma [] = []"
| "join_comma [x] = x"
| "join_comma (x # y # ys) = x @ '','' @ join_comma (y # ys)"

definition String_opt :: "string option \<Rightarrow> string" where
  "String_opt s = (case s of None \<Rightarrow> ''undefined'' | Some x \<Rightarrow> x)"

definition unexpectedValue :: "formatter \<Rightarrow> Context \<Rightarrow> string list \<Rightarrow> error" where
  "unexpectedValue gen c v =
     syntaxError gen c (''Expected: '' @ join_comma v) (Some ''Unexpected value'')"

text \<open>\<open>unexpected\<close> and \<open>unsupported\<close> read a property of \<open>this.token\<close> with no check that
  there is a token: on \<open>null\<close> or \<open>undefined\<close> the read throws a \<open>TypeError\<close> (\<open>Inl\<close>);
  otherwise the error value is returned (\<open>Inr\<close>).\<close>

definition unexpected :: "formatter \<Rightarrow> Context \<Rightarrow> string option \<Rightarrow> error + error" where
  "unexpected gen c tk =
     (case token c of
        None \<Rightarrow> Inl TypeError
      | Some t \<Rightarrow>
          Inr (syntaxError gen c (''Expected: '' @ String_opt tk)
                 (Some (''Unexpected token '' @ tok_type t))))"

text \<open>\<open>unknown({ value })\<close>: the argument is an object with a string \<open>value\<close>, taken here
  already destructured.\<close>

definition unknown :: "formatter \<Rightarrow> Context \<Rightarrow> string \<Rightarrow> error" where
  "unknown gen c v = syntaxError gen c ''Unknown token'' (Some v)"

definition unsupported :: "formatter \<Rightarrow> Context \<Rightarrow> error + error" where
  "unsupported gen c =
     (case token c of
        None \<Rightarrow> Inl TypeError
      | Some t \<Rightarrow>
          Inr (syntaxError gen c ''Language feature not supported'' (Some (tok_value t))))"

text \<open>
  \<open>expect(value, type)\<close>: the result is what the call returns (\<open>Inr\<close>, the token that was
  current on entry) or throws (\<open>Inl\<close>), with the context after the call.
\<close>

definition expect ::
  "formatter \<Rightarrow> Context \<Rightarrow> string list option \<Rightarrow> string option \<Rightarrow>
     (error + TokenType option) \<times> Context" where
  "expect gen c v ty =
     (let tk = token c;
          (ok, c') = eat c v ty
      in if \<not> ok then
           (case v of
              Some vs \<Rightarrow> (Inl (unexpectedValue gen c' vs), c')
            | None \<Rightarrow>
                (case unexpected gen c' ty of
                   Inl thrown \<Rightarrow> (Inl thrown, c')
                 | Inr e \<Rightarrow> (Inl e, c')))
         else (Inr tk, c'))"

text \<open>A formatter to run the diagnostics on: the detail, the message and the place, one
  per line.\<close>

definition plainErrorString :: formatter where
  "plainErrorString msg err tk fname fid =
     (err @ ''\<newline>'') @ msg @ (''\<newline>  at '' @ fid @ '' ('' @ fname @ '')'')"

text \<open>The tokens of the line \<open>let x = 5;\<close> and a context on the first of them.\<close>

definition src_line :: string where
  "src_line = ''let x = 5;''"

definition mk_token :: "string \<Rightarrow> string \<Rightarrow> int \<Rightarrow> TokenType" where
  "mk_token v ty k =
     \<lparr>tok_value = v, tok_type = ty,
      tok_start = \<lparr>line = 0, col = k, sourceLine = src_line\<rparr>\<rparr>"

definition let_tokens :: "TokenType list" where
  "let_tokens =
     [mk_token ''let'' ''Keyword'' 0, mk_token ''x'' ''Identifier'' 4,
      mk_token ''='' ''Punctuator'' 6, mk_token ''5'' ''Constant'' 8,
      mk_token '';'' ''Punctuator'' 9]"

definition ctx_of :: "TokenType list \<Rightarrow> Context" where
  "ctx_of ts =
     (case ts of
        [] \<Rightarrow> \<lparr>token = None, stream = stream_of None [], filename = None, lines = [src_line]\<rparr>
      | t # ts' \<Rightarrow>
          \<lparr>token = Some t, stream = stream_of (Some t) ts', filename = None,
           lines = [src_line]\<rparr>)"

subsection \<open>Values and nodes\<close>

text \<open>
  The seed of \<open>startNode\<close> and the partial object of \<open>makeNode\<close> are typed \<open>any\<close>, so a
  node is a JavaScript object with arbitrary keys: a map from property names to values.
  The values are the primitives, arrays, objects, and the one kind of function this file
  creates: the \<open>toString\<close> closure of \<open>endNode\<close>, which is determined by the \<open>range\<close> it
  captures.
\<close>

datatype jsval =
    Undefined
  | Null
  | Bool bool
  | Num int
  | Str string
  | Arr "jsval list"
  | Obj "string \<Rightarrow> jsval option"
  | Accessor jsval

type_synonym object = "string \<Rightarrow> jsval option"

text \<open>A position and a token as the plain objects they are.\<close>

definition pos_obj :: "Position \<Rightarrow> jsval" where
  "pos_obj p =
     Obj [''line'' \<mapsto> Num (line p), ''col'' \<mapsto> Num (col p),
          ''sourceLine'' \<mapsto> Str (sourceLine p)]"

definition tok_obj :: "TokenType \<Rightarrow> jsval" where
  "tok_obj t =
     Obj [''value'' \<mapsto> Str (tok_value t), ''type'' \<mapsto> Str (tok_type t),
          ''start'' \<mapsto> pos_obj (tok_start t)]"

text \<open>
  Reading a property \<open>v.k\<close>, for the keys \<open>value\<close> and \<open>start\<close> that \<open>startNode\<close> reads and
  that no built-in prototype defines: a \<open>TypeError\<close> on \<open>undefined\<close> and \<open>null\<close>, the own
  property of an object, and \<open>undefined\<close> on anything else.
\<close>

definition get_prop :: "jsval \<Rightarrow> string \<Rightarrow> error + jsval" where
  "get_prop v k =
     (case v of
        Undefined \<Rightarrow> Inl TypeError
      | Null \<Rightarrow> Inl TypeError
      | Obj m \<Rightarrow> Inr (case m k of None \<Rightarrow> Undefined | Some x \<Rightarrow> x)
      | _ \<Rightarrow> Inr Undefined)"

text \<open>Reading a property of something known to be an object: \<open>undefined\<close> when absent.\<close>

definition field :: "object \<Rightarrow> string \<Rightarrow> jsval" where
  "field m k = (case m k of None \<Rightarrow> Undefined | Some x \<Rightarrow> x)"

text \<open>Object spread \<open>{...a, ...b}\<close>: the properties of \<open>b\<close> win.\<close>

definition spread :: "object \<Rightarrow> object \<Rightarrow> object" where
  "spread a b = a ++ b"

subsection \<open>Node builder\<close>

text \<open>
  \<open>startNode(token = this.token || {})\<close>. The default is taken when the argument is
  \<open>undefined\<close> (omitted); \<open>null\<close> is not replaced, and reading its \<open>value\<close> throws.
\<close>

definition startNode :: "Context \<Rightarrow> jsval \<Rightarrow> error + object" where
  "startNode c seed =
     (let tk = (case seed of
                  Undefined \<Rightarrow>
                    (case token c of Some t \<Rightarrow> tok_obj t | None \<Rightarrow> Obj Map.empty)
                | _ \<Rightarrow> seed)
      in case get_prop tk ''value'' of
           Inl e \<Rightarrow> Inl e
         | Inr v \<Rightarrow>
             (case get_prop tk ''start'' of
                Inl e \<Rightarrow> Inl e
              | Inr s \<Rightarrow>
                  Inr [''Type'' \<mapsto> Str [], ''value'' \<mapsto> v, ''range'' \<mapsto> Arr [s],
                       ''meta'' \<mapsto> Obj Map.empty, ''params'' \<mapsto> Arr [],
                       ''type'' \<mapsto> Null]))"

text \<open>
  \<open>base.range.concat(token.start)\<close>, where \<open>token.start\<close> is the start of a token of the
  stream or \<open>undefined\<close> (the start of \<open>{}\<close>), neither of which \<open>concat\<close> spreads. An array
  gives a new array with the position appended. A string has \<open>String.prototype.concat\<close>,
  which appends the text of the argument. No other value has a \<open>concat\<close> to call: the call
  throws a \<open>TypeError\<close>. (An object is taken to hold no function under \<open>concat\<close>: the
  functions of this model are the accessors \<open>endNode\<close> installs under \<open>toString\<close>.)
\<close>

definition concat_start :: "jsval \<Rightarrow> Position option \<Rightarrow> error + jsval" where
  "concat_start r p =
     (case r of
        Arr xs \<Rightarrow> Inr (Arr (xs @ [case p of None \<Rightarrow> Undefined | Some q \<Rightarrow> pos_obj q]))
      | Str s \<Rightarrow>
          Inr (Str (s @ (case p of None \<Rightarrow> ''undefined'' | Some q \<Rightarrow> ''[object Object]'')))
      | _ \<Rightarrow> Inl TypeError)"

text \<open>
  \<open>endNode(base, Type)\<close>. The end token is \<open>this.token || this.stream.last() || {}\<close>; the
  result is a new object \<open>{toString, ...seed, Type, range}\<close>, where \<open>seed\<close> is \<open>base\<close>
  without its \<open>toString\<close>.
\<close>

definition end_token :: "Context \<Rightarrow> TokenType option" where
  "end_token c = (case token c of Some t \<Rightarrow> Some t | None \<Rightarrow> last_token (stream c))"

definition endNode :: "Context \<Rightarrow> object \<Rightarrow> string \<Rightarrow> error + object" where
  "endNode c base T =
     (case concat_start (field base ''range'') (map_option tok_start (end_token c)) of
        Inl e \<Rightarrow> Inl e
      | Inr rng \<Rightarrow>
          (let toString = Accessor rng;
               seed = restrict_map base (- {''toString''})
           in Inr ((spread [''toString'' \<mapsto> toString] seed)
                     (''Type'' \<mapsto> Str T, ''range'' \<mapsto> rng))))"

text \<open>\<open>makeNode(node, syntax)\<close>: \<open>endNode({...this.startNode(), ...node}, syntax)\<close>.\<close>

definition makeNode :: "Context \<Rightarrow> object \<Rightarrow> string \<Rightarrow> error + object" where
  "makeNode c node syntax =
     (case startNode c Undefined of
        Inl e \<Rightarrow> Inl e
      | Inr opened \<Rightarrow> endNode c (spread opened node) syntax)"

text \<open>The number of entries of a node's \<open>range\<close>, when it is an array.\<close>

definition range_length :: "object \<Rightarrow> nat option" where
  "range_length n = (case n ''range'' of Some (Arr xs) \<Rightarrow> Some (length xs) | _ \<Rightarrow> None)"

subsection \<open>Vocabulary of the properties\<close>

text \<open>The node \<open>startNode\<close> returns, from the value and the start position of its seed.\<close>

definition opened_node :: "jsval \<Rightarrow> jsval \<Rightarrow> object" where
  "opened_node v s =
     [''Type'' \<mapsto> Str [], ''value'' \<mapsto> v, ''range'' \<mapsto> Arr [s],
      ''meta'' \<mapsto> Obj Map.empty, ''params'' \<mapsto> Arr [], ''type'' \<mapsto> Null]"

text \<open>The start position of the current token, and the position \<open>endNode\<close> appends;
  \<open>undefined\<close> when there is no token to take it from.\<close>

definition start_pos :: "Context \<Rightarrow> jsval" where
  "start_pos c = (case token c of Some t \<Rightarrow> pos_obj (tok_start t) | None \<Rightarrow> Undefined)"

definition end_pos :: "Context \<Rightarrow> jsval" where
  "end_pos c = (case end_token c of None \<Rightarrow> Undefined | Some t \<Rightarrow> pos_obj (tok_start t))"

text \<open>A property, and the number of entries of the range, of the node a call returned;
  \<open>None\<close> when the call threw.\<close>

definition returned_field :: "error + object \<Rightarrow> string \<Rightarrow> jsval option" where
  "returned_field r k = (case r of Inl _ \<Rightarrow> None | Inr n \<Rightarrow> Some (field n k))"

definition returned_range_length :: "error + object \<Rightarrow> nat option" where
  "returned_range_length r = (case r of Inl _ \<Rightarrow> None | Inr n \<Rightarrow> range_length n)"

text \<open>Concrete contexts: on the token \<open>x\<close> of \<open>let x = 5;\<close>, after one \<open>next()\<close>; on a
  lone operator \<open>+\<close>; and the position at a column of the line.\<close>

definition x_ctx :: Context where
  "x_ctx = ctx_next (ctx_of let_tokens)"

definition plus_ctx :: Context where
  "plus_ctx = ctx_of [mk_token ''+'' ''Operator'' 0]"

definition pos_at :: "int \<Rightarrow> jsval" where
  "pos_at k = pos_obj \<lparr>line = 0, col = k, sourceLine = src_line\<rparr>"

text \<open>The context of a parse over the tokens \<open>ts\<close> after \<open>i\<close> calls of \<open>next()\<close>, so that
  the place of a token in the stream is its index in \<open>ts\<close>; and \<open>startNode(seed)\<close> on one
  context followed by \<open>endNode(node, T)\<close> on another.\<close>

definition ctx_at :: "TokenType list \<Rightarrow> nat \<Rightarrow> Context" where
  "ctx_at ts i = advance i (ctx_of ts)"

definition start_then_end :: "Context \<Rightarrow> jsval \<Rightarrow> Context \<Rightarrow> string \<Rightarrow> error + object" where
  "start_then_end c seed c' T =
     (case startNode c seed of Inl e \<Rightarrow> Inl e | Inr n \<Rightarrow> endNode c' n T)"

subsection \<open>The node builder on a store\<close>

text \<open>
  Whether \<open>endNode\<close> writes to the node it is given is a question about shared objects, so
  \<open>endNode\<close> is also modelled on a store: a list of cells, the address of a cell being its
  index. A value is a primitive, a position (which nothing in the context writes, so it
  is kept by value) or a reference; an object, an array and a closure are cells. A closure
  cell holds the \<open>range\<close> the \<open>toString\<close> closure captured. Allocation appends a cell.
\<close>

datatype hval =
    HUndefined
  | HNull
  | HBool bool
  | HNum int
  | HStr string
  | HPos Position
  | HRef nat

datatype cell =
    ObjectCell "string \<Rightarrow> hval option"
  | ArrayCell "hval list"
  | ClosureCell hval

type_synonym store = "cell list"

text \<open>The cell at an address, and allocation at the end of the store.\<close>

definition lookup :: "store \<Rightarrow> nat \<Rightarrow> cell option" where
  "lookup h a = (if a < length h then Some (h ! a) else None)"

definition alloc :: "store \<Rightarrow> cell \<Rightarrow> nat \<times> store" where
  "alloc h x = (length h, h @ [x])"

text \<open>Reading a property of an object cell: \<open>undefined\<close> when absent.\<close>

definition hfield :: "(string \<Rightarrow> hval option) \<Rightarrow> string \<Rightarrow> hval" where
  "hfield m k = (case m k of None \<Rightarrow> HUndefined | Some x \<Rightarrow> x)"

text \<open>
  \<open>base.range.concat(token.start)\<close> on the store. \<open>Array.prototype.concat\<close> does not write
  to the array it is called on: the result is a new array cell. The other cases are those
  of \<open>concat_start\<close>.
\<close>

definition concat_start_store ::
  "store \<Rightarrow> hval \<Rightarrow> Position option \<Rightarrow> (error + hval) \<times> store" where
  "concat_start_store h r p =
     (case r of
        HRef a \<Rightarrow>
          (case lookup h a of
             Some (ArrayCell xs) \<Rightarrow>
               (let (a', h') =
                      alloc h (ArrayCell (xs @ [case p of None \<Rightarrow> HUndefined | Some q \<Rightarrow> HPos q]))
                in (Inr (HRef a'), h'))
           | _ \<Rightarrow> (Inl TypeError, h))
      | HStr s \<Rightarrow>
          (Inr (HStr (s @ (case p of None \<Rightarrow> ''undefined'' | Some q \<Rightarrow> ''[object Object]''))), h)
      | _ \<Rightarrow> (Inl TypeError, h))"

text \<open>
  \<open>endNode(base, Type)\<close> on the store, \<open>base\<close> being the address of the node: the closure
  \<open>toString\<close> and the object literal \<open>{toString, ...seed, Type, range}\<close> are two more new
  cells, and the address of the latter is returned. A \<open>base\<close> that is not an object cell
  has no \<open>range\<close> to call \<open>concat\<close> on.
\<close>

definition endNode_store ::
  "Context \<Rightarrow> store \<Rightarrow> nat \<Rightarrow> string \<Rightarrow> (error + nat) \<times> store" where
  "endNode_store c h base T =
     (case lookup h base of
        Some (ObjectCell m) \<Rightarrow>
          (case concat_start_store h (hfield m ''range'') (map_option tok_start (end_token c)) of
             (Inl e, h1) \<Rightarrow> (Inl e, h1)
           | (Inr rng, h1) \<Rightarrow>
               (let (toString, h2) = alloc h1 (ClosureCell rng);
                    seed = restrict_map m (- {''toString''});
                    (node, h3) =
                      alloc h2
                        (ObjectCell
                           (([''toString'' \<mapsto> HRef toString] ++ seed)
                              (''Type'' \<mapsto> HStr T, ''range'' \<mapsto> rng)))
                in (Inr node, h3)))
      | _ \<Rightarrow> (Inl TypeError, h))"

text \<open>The end position as a store value; a store with one opened node, the array of its
  range at address 0 and the node at address 1; and the context on the token \<open>=\<close>.\<close>

definition end_hpos :: "Context \<Rightarrow> hval" where
  "end_hpos c = (case end_token c of None \<Rightarrow> HUndefined | Some t \<Rightarrow> HPos (tok_start t))"

definition node0 :: "string \<Rightarrow> hval option" where
  "node0 = [''Type'' \<mapsto> HStr [], ''value'' \<mapsto> HStr ''x'', ''range'' \<mapsto> HRef 0]"

definition hpos_at :: "int \<Rightarrow> hval" where
  "hpos_at k = HPos \<lparr>line = 0, col = k, sourceLine = src_line\<rparr>"

definition store1 :: store where
  "store1 = [ArrayCell [hpos_at 4], ObjectCell node0]"

definition eq_ctx :: Context where
  "eq_ctx = advance (Suc 0) x_ctx"

text \<open>
  A store value represents a value of the pure model when following its references in the
  store gives that value.
\<close>

inductive repr :: "store \<Rightarrow> hval \<Rightarrow> jsval \<Rightarrow> bool" for h :: store where
  repr_undefined: "repr h HUndefined Undefined"
| repr_null: "repr h HNull Null"
| repr_bool: "repr h (HBool b) (Bool b)"
| repr_num: "repr h (HNum n) (Num n)"
| repr_str: "repr h (HStr s) (Str s)"
| repr_pos: "repr h (HPos p) (pos_obj p)"
| repr_array:
    "lookup h a = Some (ArrayCell xs) \<Longrightarrow> list_all2 (repr h) xs vs \<Longrightarrow> repr h (HRef a) (Arr vs)"
| repr_object:
    "lookup h a = Some (ObjectCell m) \<Longrightarrow>
     (\<forall>k. (m k = None \<and> mv k = None) \<or> (\<exists>x v. m k = Some x \<and> mv k = Some v \<and> repr h x v)) \<Longrightarrow>
     repr h (HRef a) (Obj mv)"
| repr_closure:
    "lookup h a = Some (ClosureCell r) \<Longrightarrow> repr h r v \<Longrightarrow> repr h (HRef a) (Accessor v)"

definition repr_fields :: "store \<Rightarrow> (string \<Rightarrow> hval option) \<Rightarrow> object \<Rightarrow> bool" where
  "repr_fields h m mv \<longleftrightarrow>
     (\<forall>k. (m k = None \<and> mv k = None) \<or> (\<exists>x v. m k = Some x \<and> mv k = Some v \<and> repr h x v))"

section \<open>Properties\<close>

subsection \<open>Matcher\<close>

lemma eat_no_token: "token c = None \<Longrightarrow> eat c v ty = (False, c)"
  by (simp add: eat_def)

lemma token_after_let: "next_token (stream (ctx_of let_tokens)) = Some (mk_token ''x'' ''Identifier'' 4)"
  by (simp add: ctx_of_def let_tokens_def)

text \<open>
  C1: \<open>eat(value, type)\<close> advances the cursor exactly when the current token matches: its
  value is a member of the value set when one is given, otherwise its type equals the
  given type. When it advances it returns true, the current token becomes the token
  \<open>stream.next()\<close> returns, the stream is the stream after that call, and nothing else of
  the context changes. On a mismatch, and when there is no current token, it returns false
  and leaves the context as it was. The model has no exception for \<open>eat\<close>: the function is
  total.
\<close>

theorem eat_advances_iff_match:
  "(fst (eat c (Some vs) ty) \<longleftrightarrow> (\<exists>t. token c = Some t \<and> tok_value t \<in> set vs)) \<and>
   (fst (eat c None ty) \<longleftrightarrow> (\<exists>t. token c = Some t \<and> ty = Some (tok_type t))) \<and>
   snd (eat c v ty) = (if fst (eat c v ty) then ctx_next c else c) \<and>
   (token c = None \<longrightarrow> eat c v ty = (False, c)) \<and>
   (fst (eat c v ty) \<longrightarrow>
      token (snd (eat c v ty)) = next_token (stream c) \<and>
      stream (snd (eat c v ty)) = next_stream (stream c) \<and>
      filename (snd (eat c v ty)) = filename c \<and>
      lines (snd (eat c v ty)) = lines c) \<and>
   (\<not> fst (eat c v ty) \<longrightarrow> snd (eat c v ty) = c)"
  by (auto simp: eat_def ctx_next_def split: option.splits)

theorem eat_advances_iff_match_witness:
  "token (ctx_of let_tokens) = Some (mk_token ''let'' ''Keyword'' 0) \<and>
   eat (ctx_of let_tokens) (Some [''let'']) None = (True, ctx_next (ctx_of let_tokens)) \<and>
   token (snd (eat (ctx_of let_tokens) (Some [''let'']) None)) =
     Some (mk_token ''x'' ''Identifier'' 4) \<and>
   eat (ctx_of let_tokens) (Some [''var'']) None = (False, ctx_of let_tokens) \<and>
   token (snd (eat (ctx_of let_tokens) (Some [''var'']) None)) =
     Some (mk_token ''let'' ''Keyword'' 0) \<and>
   eat (ctx_of let_tokens) None (Some ''Keyword'') = (True, ctx_next (ctx_of let_tokens)) \<and>
   token (snd (eat (ctx_of let_tokens) None (Some ''Keyword''))) =
     Some (mk_token ''x'' ''Identifier'' 4) \<and>
   eat (ctx_of let_tokens) None (Some ''Identifier'') = (False, ctx_of let_tokens) \<and>
   token (ctx_of []) = None \<and>
   eat (ctx_of []) (Some [''let'']) None = (False, ctx_of [])"
proof -
  let ?c = "ctx_of let_tokens"
  have t: "token ?c = Some (mk_token ''let'' ''Keyword'' 0)"
    by (simp add: ctx_of_def let_tokens_def)
  have v: "tok_value (mk_token ''let'' ''Keyword'' 0) = ''let''"
    "tok_type (mk_token ''let'' ''Keyword'' 0) = ''Keyword''"
    by (simp_all add: mk_token_def)
  have n: "token (ctx_of []) = None"
    by (simp add: ctx_of_def)
  note i1 = eat_advances_iff_match [of ?c "[''let'']" None "Some [''let'']"]
  note i2 = eat_advances_iff_match [of ?c "[''var'']" None "Some [''var'']"]
  note i3 = eat_advances_iff_match [of ?c "[]" "Some ''Keyword''" None]
  note i4 = eat_advances_iff_match [of ?c "[]" "Some ''Identifier''" None]
  have 1: "eat ?c (Some [''let'']) None = (True, ctx_next ?c)"
    using i1 by (simp add: t v prod_eq_iff)
  have f1: "fst (eat ?c (Some [''let'']) None)"
    using 1 by simp
  have t1: "token (snd (eat ?c (Some [''let'']) None)) = Some (mk_token ''x'' ''Identifier'' 4)"
    using i1 [THEN conjunct2, THEN conjunct2, THEN conjunct2, THEN conjunct2, THEN conjunct1,
        rule_format, OF f1, THEN conjunct1]
    by (simp only: token_after_let)
  have 2: "eat ?c (Some [''var'']) None = (False, ?c)"
    using i2 by (simp add: t v prod_eq_iff)
  have f2: "\<not> fst (eat ?c (Some [''var'']) None)"
    using 2 by simp
  have t2: "token (snd (eat ?c (Some [''var'']) None)) = Some (mk_token ''let'' ''Keyword'' 0)"
    using i2 [THEN conjunct2, THEN conjunct2, THEN conjunct2, THEN conjunct2, THEN conjunct2,
        rule_format, OF f2]
    by (simp only: t)
  have 3: "eat ?c None (Some ''Keyword'') = (True, ctx_next ?c)"
    using i3 by (simp add: t v prod_eq_iff)
  have f3: "fst (eat ?c None (Some ''Keyword''))"
    using 3 by simp
  have t3: "token (snd (eat ?c None (Some ''Keyword''))) = Some (mk_token ''x'' ''Identifier'' 4)"
    using i3 [THEN conjunct2, THEN conjunct2, THEN conjunct2, THEN conjunct2, THEN conjunct1,
        rule_format, OF f3, THEN conjunct1]
    by (simp only: token_after_let)
  have 4: "eat ?c None (Some ''Identifier'') = (False, ?c)"
    using i4 by (simp add: t v prod_eq_iff)
  have 5: "eat (ctx_of []) (Some [''let'']) None = (False, ctx_of [])"
    using eat_advances_iff_match [of "ctx_of []" "[''let'']" None "Some [''let'']"] n
    by simp
  from t 1 t1 2 t2 3 t3 4 n 5 show ?thesis by (intro conjI)
qed

text \<open>The same, with the match as one predicate.\<close>

lemma eat_current_matches:
  "eat c v ty = (if current_matches c v ty then (True, ctx_next c) else (False, c))"
  by (auto simp: eat_def current_matches_def split: option.splits)

lemma expect_as_eat:
  "expect gen c v ty =
     (case eat c v ty of
        (True, c') \<Rightarrow> (Inr (token c), c')
      | (False, c') \<Rightarrow>
          (case v of
             Some vs \<Rightarrow> (Inl (unexpectedValue gen c' vs), c')
           | None \<Rightarrow>
               (case unexpected gen c' ty of Inl x \<Rightarrow> (Inl x, c') | Inr e \<Rightarrow> (Inl e, c'))))"
  by (auto simp: expect_def Let_def split: option.splits if_splits sum.splits prod.splits bool.splits)

text \<open>With a current token, \<open>expect\<close> does what the specification says: it returns the
  token and advances on a match, and otherwise throws the syntax error of the value set or
  of the type, leaving the context as it was.\<close>

lemma expect_with_token:
  "token c = Some t \<Longrightarrow>
   expect gen c v ty =
     (if current_matches c v ty then (Inr (Some t), ctx_next c)
      else (Inl (case v of
                   Some vs \<Rightarrow> unexpectedValue gen c vs
                 | None \<Rightarrow>
                     syntaxError gen c (''Expected: '' @ String_opt ty)
                       (Some (''Unexpected token '' @ tok_type t))), c))"
  by (auto simp: expect_def eat_def current_matches_def unexpected_def Let_def
      split: option.splits)

text \<open>
  C2: \<open>expect(value, type)\<close> is \<open>eat\<close> followed by returning the previous token or
  throwing the syntax error of the mismatch. With no current token and no value set the
  call does not throw a syntax error: \<open>unexpected\<close> reads \<open>this.token.type\<close>, and the read
  throws a \<open>TypeError\<close>.
\<close>

theorem expect_no_token_raises_TypeError:
  "expect plainErrorString (ctx_of []) None (Some ''Identifier'') = (Inl TypeError, ctx_of [])"
  by (simp add: expect_def eat_def unexpected_def ctx_of_def)

text \<open>
  C9: when \<open>expect\<close> throws, the context after the call is the context before it; in
  particular the current token is the same.
\<close>

theorem expect_failure_keeps_token:
  "expect gen c v ty = (Inl e, c') \<Longrightarrow> token c' = token c \<and> c' = c"
  by (auto simp: expect_def eat_def Let_def split: option.splits if_splits sum.splits)

theorem expect_failure_keeps_token_witness:
  "expect plainErrorString (ctx_of let_tokens) (Some [''x'']) None =
     (Inl (SyntaxError ''Unexpected value\<newline>Expected: x\<newline>  at unknown (unknown)''),
      ctx_of let_tokens) \<and>
   token (ctx_of let_tokens) = Some (mk_token ''let'' ''Keyword'' 0)"
  using expect_failure_keeps_token [of plainErrorString "ctx_of let_tokens" "Some [''x'']" None
      "SyntaxError ''Unexpected value\<newline>Expected: x\<newline>  at unknown (unknown)''"
      "ctx_of let_tokens"]
  by (simp add: expect_def eat_def ctx_of_def let_tokens_def mk_token_def unexpectedValue_def
      syntaxError_def or_default_def plainErrorString_def)

subsection \<open>Diagnostics\<close>

lemma plain_embeds: "sublist m (plainErrorString m d tk f i)"
  unfolding plainErrorString_def by (rule sublist_appendI)

text \<open>With a current token every diagnostic returns a syntax error value.\<close>

lemma diagnostics_return_with_token:
  "token c = Some t \<Longrightarrow>
   (\<exists>m. unexpected gen c tk = Inr (SyntaxError m)) \<and>
   (\<exists>m. unsupported gen c = Inr (SyntaxError m)) \<and>
   (\<exists>m. syntaxError gen c msg d = SyntaxError m) \<and>
   (\<exists>m. unexpectedValue gen c vs = SyntaxError m) \<and>
   (\<exists>m. unknown gen c v = SyntaxError m)"
  by (simp add: unexpected_def unsupported_def syntaxError_def unexpectedValue_def unknown_def)

text \<open>
  C7: the diagnostics return a syntax error value and do not throw; only \<open>expect\<close>
  throws one. With no current token \<open>unexpected\<close> and \<open>unsupported\<close> return nothing: the
  reads \<open>this.token.type\<close> and \<open>this.token.value\<close> throw a \<open>TypeError\<close>.
\<close>

theorem diagnostics_no_token_raise_TypeError:
  "unexpected plainErrorString (ctx_of []) (Some ''Identifier'') = Inl TypeError \<and>
   unsupported plainErrorString (ctx_of []) = Inl TypeError"
  by (simp add: unexpected_def unsupported_def ctx_of_def)

text \<open>
  C8: \<open>syntaxError(message, detail)\<close> hands the formatter the message, the detail (the
  empty string when absent), the current token, the file name (\<open>"unknown"\<close> when unset) and
  the function identifier \<open>"unknown"\<close>. On a current token \<open>+\<close> of type \<open>Operator\<close>,
  \<open>expect(["let"])\<close> throws the syntax error whose message is \<open>Expected: let\<close> and whose
  detail is \<open>Unexpected value\<close>; its text contains \<open>Expected: let\<close> for every formatter
  that puts the message it is given into its text.
\<close>

theorem syntaxError_composition:
  "syntaxError gen c msg detail =
     SyntaxError
       (gen msg (case detail of None \<Rightarrow> [] | Some d \<Rightarrow> d) (token c)
          (case filename c of None \<Rightarrow> ''unknown'' | Some f \<Rightarrow> if f = [] then ''unknown'' else f)
          ''unknown'') \<and>
   (token c = Some t \<and> tok_value t = ''+'' \<and> tok_type t = ''Operator'' \<longrightarrow>
      expect gen c (Some [''let'']) ty =
        (Inl (SyntaxError
               (gen ''Expected: let'' ''Unexpected value'' (Some t)
                  (or_default (filename c) ''unknown'') ''unknown'')), c) \<and>
      ((\<forall>m d tk f i. sublist m (gen m d tk f i)) \<longrightarrow>
         (\<exists>text. fst (expect gen c (Some [''let'']) ty) = Inl (SyntaxError text) \<and>
            sublist ''Expected: let'' text)))"
  by (auto simp: syntaxError_def or_default_def expect_def eat_def unexpectedValue_def Let_def
      split: option.splits)

subsection \<open>Node builder\<close>

lemma startNode_object:
  "startNode c (Obj m) = Inr (opened_node (field m ''value'') (field m ''start''))"
  by (simp add: startNode_def get_prop_def opened_node_def field_def)

lemma startNode_default:
  "startNode c Undefined =
     startNode c (case token c of Some t \<Rightarrow> tok_obj t | None \<Rightarrow> Obj Map.empty)"
  by (simp add: startNode_def tok_obj_def split: option.splits)

lemma startNode_token:
  "startNode c (tok_obj t) = Inr (opened_node (Str (tok_value t)) (pos_obj (tok_start t)))"
  by (simp add: tok_obj_def startNode_object field_def)

lemma startNode_returns: "seed \<noteq> Null \<Longrightarrow> \<exists>v s. startNode c seed = Inr (opened_node v s)"
  by (cases seed)
    (auto simp: startNode_def get_prop_def opened_node_def tok_obj_def split: option.splits)

lemma startNode_null: "startNode c Null = Inl TypeError"
  by (simp add: startNode_def get_prop_def)

lemma startNode_shape: "startNode c seed = Inr n \<Longrightarrow> \<exists>v s. n = opened_node v s"
  by (cases seed)
    (auto simp: startNode_def get_prop_def opened_node_def tok_obj_def split: option.splits)

text \<open>
  C5: \<open>startNode(seed)\<close> opens the node on the seed when one is given, otherwise on the
  current token, otherwise on the empty object. The node has exactly the keys \<open>Type\<close>,
  \<open>value\<close>, \<open>range\<close>, \<open>meta\<close>, \<open>params\<close> and \<open>type\<close>: the range is the one-element array
  of the seed's start, the type is the empty string, the value is the seed's, \<open>meta\<close> is
  an empty object, \<open>params\<close> an empty array and \<open>type\<close> is \<open>null\<close>.
\<close>

theorem startNode_opens_node:
  "startNode c (tok_obj t) = Inr (opened_node (Str (tok_value t)) (pos_obj (tok_start t))) \<and>
   startNode c (Obj m) = Inr (opened_node (field m ''value'') (field m ''start'')) \<and>
   startNode c Undefined =
     (case token c of
        Some t' \<Rightarrow> Inr (opened_node (Str (tok_value t')) (pos_obj (tok_start t')))
      | None \<Rightarrow> Inr (opened_node Undefined Undefined)) \<and>
   opened_node v s ''range'' = Some (Arr [s]) \<and>
   opened_node v s ''Type'' = Some (Str []) \<and>
   opened_node v s ''value'' = Some v \<and>
   opened_node v s ''meta'' = Some (Obj Map.empty) \<and>
   opened_node v s ''params'' = Some (Arr []) \<and>
   opened_node v s ''type'' = Some Null \<and>
   dom (opened_node v s) = {''Type'', ''value'', ''range'', ''meta'', ''params'', ''type''}"
proof (intro conjI)
  show "startNode c (tok_obj t) = Inr (opened_node (Str (tok_value t)) (pos_obj (tok_start t)))"
    by (rule startNode_token)
  show "startNode c (Obj m) = Inr (opened_node (field m ''value'') (field m ''start''))"
    by (rule startNode_object)
  show "startNode c Undefined =
     (case token c of
        Some t' \<Rightarrow> Inr (opened_node (Str (tok_value t')) (pos_obj (tok_start t')))
      | None \<Rightarrow> Inr (opened_node Undefined Undefined))"
    by (simp add: startNode_default startNode_token startNode_object field_def
        split: option.splits)
  show "dom (opened_node v s) = {''Type'', ''value'', ''range'', ''meta'', ''params'', ''type''}"
    by (auto simp: opened_node_def)
qed (simp_all add: opened_node_def)

lemma spread_single:
  "spread [k \<mapsto> v] (restrict_map m (- {k})) = (restrict_map m (- {k}))(k \<mapsto> v)"
  by (rule ext) (simp add: spread_def map_add_def restrict_map_def split: option.splits)

lemma endNode_unfold:
  "endNode c base T =
     (case concat_start (field base ''range'') (map_option tok_start (end_token c)) of
        Inl e \<Rightarrow> Inl e
      | Inr rng \<Rightarrow>
          Inr ((restrict_map base (- {''toString''}))
                 (''toString'' \<mapsto> Accessor rng, ''Type'' \<mapsto> Str T, ''range'' \<mapsto> rng)))"
  by (simp add: endNode_def Let_def spread_single split: sum.splits)

lemma endNode_array:
  "base ''range'' = Some (Arr xs) \<Longrightarrow>
   endNode c base T =
     Inr ((restrict_map base (- {''toString''}))
            (''toString'' \<mapsto> Accessor (Arr (xs @ [end_pos c])),
             ''Type'' \<mapsto> Str T,
             ''range'' \<mapsto> Arr (xs @ [end_pos c])))"
  by (simp add: endNode_unfold field_def concat_start_def end_pos_def split: option.splits)

lemma endNode_result:
  "\<exists>rng. concat_start (field base ''range'') (map_option tok_start (end_token c)) = Inr rng \<and>
     node = (restrict_map base (- {''toString''}))
              (''toString'' \<mapsto> Accessor rng, ''Type'' \<mapsto> Str T, ''range'' \<mapsto> rng)"
  if "endNode c base T = Inr node"
proof (cases "concat_start (field base ''range'') (map_option tok_start (end_token c))")
  case (Inl e)
  have "endNode c base T = Inl e"
    by (simp only: endNode_unfold Inl sum.case)
  with that have False by simp
  then show ?thesis ..
next
  case (Inr rng)
  have "endNode c base T =
      Inr ((restrict_map base (- {''toString''}))
              (''toString'' \<mapsto> Accessor rng, ''Type'' \<mapsto> Str T, ''range'' \<mapsto> rng))"
    by (simp only: endNode_unfold Inr sum.case)
  with that have "(restrict_map base (- {''toString''}))
              (''toString'' \<mapsto> Accessor rng, ''Type'' \<mapsto> Str T, ''range'' \<mapsto> rng) = node"
    by (simp only: sum.inject)
  then have n: "node = (restrict_map base (- {''toString''}))
              (''toString'' \<mapsto> Accessor rng, ''Type'' \<mapsto> Str T, ''range'' \<mapsto> rng)"
    by (rule sym)
  show ?thesis
  proof (intro exI conjI)
    show "concat_start (field base ''range'') (map_option tok_start (end_token c)) = Inr rng"
      by (fact Inr)
    show "node = (restrict_map base (- {''toString''}))
              (''toString'' \<mapsto> Accessor rng, ''Type'' \<mapsto> Str T, ''range'' \<mapsto> rng)"
      by (fact n)
  qed
qed

lemma endNode_opened:
  "endNode c (opened_node v s) T =
     Inr ((restrict_map (opened_node v s) (- {''toString''}))
            (''toString'' \<mapsto> Accessor (Arr [s, end_pos c]),
             ''Type'' \<mapsto> Str T,
             ''range'' \<mapsto> Arr [s, end_pos c]))"
  using endNode_array [of "opened_node v s" "[s]" c T] by (simp add: opened_node_def)

lemma makeNode_unfold:
  "makeNode c partial T =
     endNode c
       (spread (opened_node (case token c of Some t \<Rightarrow> Str (tok_value t) | None \<Rightarrow> Undefined)
                  (start_pos c))
          partial) T"
  by (simp add: makeNode_def startNode_default startNode_token startNode_object field_def
      start_pos_def split: option.splits)

lemma makeNode_returns:
  "partial ''range'' = None \<Longrightarrow>
   makeNode c partial T =
     Inr ((restrict_map
             (spread (opened_node
                        (case token c of Some t \<Rightarrow> Str (tok_value t) | None \<Rightarrow> Undefined)
                        (start_pos c)) partial) (- {''toString''}))
            (''toString'' \<mapsto> Accessor (Arr [start_pos c, end_pos c]),
             ''Type'' \<mapsto> Str T,
             ''range'' \<mapsto> Arr [start_pos c, end_pos c]))"
proof -
  assume p: "partial ''range'' = None"
  let ?base = "spread (opened_node
                         (case token c of Some t \<Rightarrow> Str (tok_value t) | None \<Rightarrow> Undefined)
                         (start_pos c)) partial"
  have r: "?base ''range'' = Some (Arr [start_pos c])"
    by (simp add: spread_def map_add_def opened_node_def p)
  show ?thesis
    using endNode_array [of ?base "[start_pos c]" c T, OF r]
    by (simp add: makeNode_unfold)
qed

lemma spread_keeps:
  "partial k = Some v \<Longrightarrow> k \<noteq> ''Type'' \<Longrightarrow> k \<noteq> ''range'' \<Longrightarrow> k \<noteq> ''toString'' \<Longrightarrow>
   ((restrict_map (spread b partial) (- {''toString''}))
      (''toString'' \<mapsto> a, ''Type'' \<mapsto> ty, ''range'' \<mapsto> rng)) k = Some v"
  by (simp add: spread_def map_add_def restrict_map_def)

lemma spread_range:
  "field (spread (opened_node x s) partial) ''range'' =
     (case partial ''range'' of Some r \<Rightarrow> r | None \<Rightarrow> Arr [s])"
  by (simp add: field_def spread_def map_add_def opened_node_def split: option.splits)

lemma range_length_opened: "range_length (opened_node v s) = Some 1"
  by (simp add: range_length_def opened_node_def)

lemma token_x_ctx: "token x_ctx = Some (mk_token ''x'' ''Identifier'' 4)"
  by (simp add: x_ctx_def ctx_next_def ctx_of_def let_tokens_def)

lemma token_after_x: "token (advance (Suc 0) x_ctx) = Some (mk_token ''='' ''Punctuator'' 6)"
  by (simp add: x_ctx_def ctx_next_def ctx_of_def let_tokens_def)

lemma concat_start_no_SyntaxError: "concat_start r p \<noteq> Inl (SyntaxError m)"
  by (simp add: concat_start_def split: jsval.splits)

text \<open>The node builder throws no syntax error: what it throws is a \<open>TypeError\<close>.\<close>

lemma node_builder_no_SyntaxError:
  "startNode c seed \<noteq> Inl (SyntaxError m) \<and>
   endNode c base T \<noteq> Inl (SyntaxError m) \<and>
   makeNode c partial T \<noteq> Inl (SyntaxError m)"
proof (intro conjI)
  show "startNode c seed \<noteq> Inl (SyntaxError m)"
    by (cases seed) (simp_all add: startNode_def get_prop_def tok_obj_def split: option.splits)
  show e: "endNode c base T \<noteq> Inl (SyntaxError m)" for c base T
    using concat_start_no_SyntaxError [of "field base ''range''" "map_option tok_start (end_token c)" m]
    by (auto simp: endNode_unfold split: sum.splits)
  show "makeNode c partial T \<noteq> Inl (SyntaxError m)"
    unfolding makeNode_unfold by (rule e)
qed

text \<open>On the tokens of \<open>let x = 5;\<close>, \<open>expect(["let"])\<close> returns the token \<open>let\<close> and
  leaves the context on \<open>x\<close>.\<close>

lemma expect_let_scenario:
  "expect gen (ctx_of let_tokens) (Some [''let'']) None =
     (Inr (Some (mk_token ''let'' ''Keyword'' 0)), x_ctx) \<and>
   token x_ctx = Some (mk_token ''x'' ''Identifier'' 4)"
  by (simp add: expect_def eat_def x_ctx_def ctx_of_def let_tokens_def mk_token_def ctx_next_def)

text \<open>
  C3 as stated fails on the key \<open>toString\<close>: \<open>endNode\<close> leaves the \<open>toString\<close> of its base
  out of the node and installs its own accessor, so a \<open>toString\<close> given in \<open>partial\<close> does
  not reach the result.
\<close>

theorem makeNode_toString_counterexample:
  "returned_field (makeNode x_ctx [''toString'' \<mapsto> Str ''x''] ''Identifier'') ''toString'' =
     Some (Accessor (Arr [pos_at 4, pos_at 4])) \<and>
   returned_field (makeNode x_ctx [''toString'' \<mapsto> Str ''x''] ''Identifier'') ''toString'' \<noteq>
     Some (Str ''x'')"
  by (simp add: makeNode_returns returned_field_def field_def start_pos_def end_pos_def
      end_token_def token_x_ctx mk_token_def pos_at_def)

text \<open>
  C3, as amended: the node \<open>makeNode(partial, T)\<close> returns has every key of \<open>partial\<close>
  other than \<open>Type\<close>, \<open>range\<close> and \<open>toString\<close> with the value \<open>partial\<close> gives it. Its
  \<open>Type\<close> is \<open>T\<close>, its \<open>toString\<close> is the new accessor over its range, and its range is
  the computed span: the range of the opened node (the one \<open>partial\<close> supplies, else the
  one-element array of the current token's start) with the end position appended. The
  call returns whenever \<open>partial\<close> has no \<open>range\<close> of its own.
\<close>

theorem makeNode_keeps_partial:
  "(partial ''range'' = None \<longrightarrow> (\<exists>node. makeNode c partial T = Inr node)) \<and>
   (\<forall>node. makeNode c partial T = Inr node \<longrightarrow>
      (\<forall>k v. partial k = Some v \<and> k \<notin> {''Type'', ''range'', ''toString''} \<longrightarrow> node k = Some v) \<and>
      node ''Type'' = Some (Str T) \<and>
      (\<exists>rng. node ''range'' = Some rng \<and> node ''toString'' = Some (Accessor rng) \<and>
         concat_start (case partial ''range'' of Some r \<Rightarrow> r | None \<Rightarrow> Arr [start_pos c])
           (map_option tok_start (end_token c)) = Inr rng))"
proof (intro conjI allI impI)
  assume "partial ''range'' = None"
  then show "\<exists>node. makeNode c partial T = Inr node"
    by (simp add: makeNode_returns)
next
  fix node assume m: "makeNode c partial T = Inr node"
  let ?base = "spread (opened_node (case token c of Some t \<Rightarrow> Str (tok_value t) | None \<Rightarrow> Undefined)
                  (start_pos c)) partial"
  from m have e: "endNode c ?base T = Inr node"
    by (simp add: makeNode_unfold)
  from endNode_result [OF e] obtain rng where
    c: "concat_start (field ?base ''range'') (map_option tok_start (end_token c)) = Inr rng" and
    n: "node = (restrict_map ?base (- {''toString''}))
              (''toString'' \<mapsto> Accessor rng, ''Type'' \<mapsto> Str T, ''range'' \<mapsto> rng)"
    by (elim exE conjE)
  show "node ''Type'' = Some (Str T)" by (simp add: n)
  have "node ''range'' = Some rng" "node ''toString'' = Some (Accessor rng)"
    by (simp_all add: n)
  with c show "\<exists>rng. node ''range'' = Some rng \<and> node ''toString'' = Some (Accessor rng) \<and>
         concat_start (case partial ''range'' of Some r \<Rightarrow> r | None \<Rightarrow> Arr [start_pos c])
           (map_option tok_start (end_token c)) = Inr rng"
    by (simp add: spread_range)
  fix k v assume "partial k = Some v \<and> k \<notin> {''Type'', ''range'', ''toString''}"
  then show "node k = Some v"
    unfolding n by (intro spread_keeps) simp_all
qed

theorem makeNode_keeps_partial_witness:
  "[''value'' \<mapsto> Str ''x''] ''range'' = None \<and>
   [''value'' \<mapsto> Str ''x''] ''value'' = Some (Str ''x'') \<and>
   ''value'' \<notin> {''Type'', ''range'', ''toString''} \<and>
   (\<exists>node. makeNode x_ctx [''value'' \<mapsto> Str ''x''] ''Identifier'' = Inr node \<and>
      node ''value'' = Some (Str ''x'') \<and>
      node ''Type'' = Some (Str ''Identifier'') \<and>
      node ''range'' = Some (Arr [pos_at 4, pos_at 4]) \<and>
      node ''toString'' = Some (Accessor (Arr [pos_at 4, pos_at 4])))"
proof -
  let ?p = "[''value'' \<mapsto> Str ''x'']"
  have p: "?p ''range'' = None" by simp
  note inst = makeNode_keeps_partial [of ?p x_ctx "''Identifier''"]
  from inst p obtain node where m: "makeNode x_ctx ?p ''Identifier'' = Inr node"
    by (elim conjE impE exE)
  from inst m have
    k: "\<forall>k v. ?p k = Some v \<and> k \<notin> {''Type'', ''range'', ''toString''} \<longrightarrow> node k = Some v" and
    t: "node ''Type'' = Some (Str ''Identifier'')" and
    r: "\<exists>rng. node ''range'' = Some rng \<and> node ''toString'' = Some (Accessor rng) \<and>
         concat_start (case ?p ''range'' of Some r \<Rightarrow> r | None \<Rightarrow> Arr [start_pos x_ctx])
           (map_option tok_start (end_token x_ctx)) = Inr rng"
    by blast+
  from k have v: "node ''value'' = Some (Str ''x'')" by simp
  from r have "node ''range'' = Some (Arr [pos_at 4, pos_at 4]) \<and>
      node ''toString'' = Some (Accessor (Arr [pos_at 4, pos_at 4]))"
    by (auto simp: concat_start_def start_pos_def end_token_def token_x_ctx mk_token_def pos_at_def)
  with m v t show ?thesis by simp
qed

text \<open>The tokens and the last token of a stream over a list, after one or more calls
  of \<open>next()\<close>.\<close>

lemma advance_stream_of:
  "stream c = stream_of l ts \<Longrightarrow>
   token (advance (Suc i) c) = (if i < length ts then Some (ts ! i) else None) \<and>
   last_token (stream (advance (Suc i) c)) =
     (if ts = [] then l else Some (ts ! min i (length ts - 1)))"
proof (induction i arbitrary: c l ts)
  case 0
  then show ?case
    by (cases ts) (simp_all add: ctx_next_def)
next
  case (Suc i)
  show ?case
  proof (cases ts)
    case Nil
    with Suc.prems have "stream (ctx_next c) = stream_of l []"
      by (simp add: ctx_next_def)
    from Suc.IH [OF this] Nil show ?thesis
      by simp
  next
    case (Cons t ts')
    with Suc.prems have "stream (ctx_next c) = stream_of (Some t) ts'"
      by (simp add: ctx_next_def)
    from Suc.IH [OF this] have
      a: "token (advance (Suc i) (ctx_next c)) = (if i < length ts' then Some (ts' ! i) else None)"
      and b: "last_token (stream (advance (Suc i) (ctx_next c))) =
        (if ts' = [] then Some t else Some (ts' ! min i (length ts' - 1)))"
      by simp_all
    have m: "ts' \<noteq> [] \<Longrightarrow> min (Suc i) (length ts') = Suc (min i (length ts' - 1))"
      by (cases ts') simp_all
    show ?thesis
      using a b m by (cases "ts' = []") (simp_all add: Cons)
  qed
qed

lemma token_ctx_at: "i < length ts \<Longrightarrow> token (ctx_at ts i) = Some (ts ! i)"
proof (cases ts)
  case Nil
  then show "i < length ts \<Longrightarrow> ?thesis" by simp
next
  case (Cons t ts')
  assume i: "i < length ts"
  show ?thesis
  proof (cases i)
    case 0
    then show ?thesis by (simp add: ctx_at_def ctx_of_def Cons)
  next
    case (Suc j)
    have "stream (ctx_of ts) = stream_of (Some t) ts'"
      by (simp add: ctx_of_def Cons)
    from advance_stream_of [OF this, of j] i show ?thesis
      by (simp add: ctx_at_def Suc Cons)
  qed
qed

lemma end_token_ctx_at:
  "ts \<noteq> [] \<Longrightarrow> end_token (ctx_at ts i) = Some (ts ! min i (length ts - 1))"
proof (cases ts)
  case Nil
  then show "ts \<noteq> [] \<Longrightarrow> ?thesis" by simp
next
  case (Cons t ts')
  show ?thesis
  proof (cases i)
    case 0
    then show ?thesis by (simp add: ctx_at_def ctx_of_def Cons end_token_def)
  next
    case (Suc j)
    have "stream (ctx_of ts) = stream_of (Some t) ts'"
      by (simp add: ctx_of_def Cons)
    from advance_stream_of [OF this, of j] have
      a: "token (ctx_at ts i) = (if j < length ts' then Some (ts' ! j) else None)" and
      b: "last_token (stream (ctx_at ts i)) =
        (if ts' = [] then Some t else Some (ts' ! min j (length ts' - 1)))"
      by (simp_all add: ctx_at_def Suc)
    have m: "ts' \<noteq> [] \<Longrightarrow> min (Suc j) (length ts') = Suc (min j (length ts' - 1))"
      by (cases ts') simp_all
    show ?thesis
    proof (cases "j < length ts'")
      case True
      with a show ?thesis
        by (simp add: end_token_def Suc Cons)
    next
      case False
      with a b m show ?thesis
        by (cases "ts' = []") (simp_all add: end_token_def Suc Cons)
    qed
  qed
qed

text \<open>
  C4 as stated fails in three ways. A \<open>makeNode\<close> whose partial object brings a range of
  its own finalizes a node with three entries: \<open>endNode\<close> appends the end position to
  whatever range its base has. A node opened on a seed that is not the current token can
  start after it ends: seeded with the token at place 4 of \<open>let x = 5;\<close> (column 9) and
  closed while the cursor is on the token at place 1 (column 4), its range is columns
  9, 4. And a node opened with no seed and no current token has no start position: the
  first entry of its range is \<open>undefined\<close>.
\<close>

theorem makeNode_range_counterexample:
  "returned_range_length
     (makeNode x_ctx [''range'' \<mapsto> Arr [pos_at 0, pos_at 4]] ''Identifier'') = Some 3 \<and>
   returned_range_length
     (makeNode x_ctx [''range'' \<mapsto> Arr [pos_at 0, pos_at 4]] ''Identifier'') \<noteq> Some 2 \<and>
   let_tokens ! 4 = mk_token '';'' ''Punctuator'' 9 \<and>
   token x_ctx = Some (let_tokens ! 1) \<and>
   returned_field
     (start_then_end x_ctx (tok_obj (let_tokens ! 4)) x_ctx ''Identifier'') ''range'' =
     Some (Arr [pos_at 9, pos_at 4]) \<and>
   token (ctx_at let_tokens 5) = None \<and>
   returned_field
     (start_then_end (ctx_at let_tokens 5) Undefined (ctx_at let_tokens 5) ''Identifier'')
     ''range'' = Some (Arr [Undefined, pos_at 9])"
proof -
  have 1: "returned_range_length
     (makeNode x_ctx [''range'' \<mapsto> Arr [pos_at 0, pos_at 4]] ''Identifier'') = Some 3"
    by (simp add: makeNode_unfold endNode_unfold returned_range_length_def range_length_def
        field_def spread_def opened_node_def concat_start_def)
  have 2: "let_tokens ! 4 = mk_token '';'' ''Punctuator'' 9"
    "let_tokens ! 1 = mk_token ''x'' ''Identifier'' 4"
    by (simp_all add: let_tokens_def)
  have 3: "token x_ctx = Some (let_tokens ! 1)"
    by (simp only: token_x_ctx 2)
  have e: "end_pos x_ctx = pos_at 4"
    by (simp add: end_pos_def end_token_def token_x_ctx mk_token_def pos_at_def)
  have 4: "returned_field
     (start_then_end x_ctx (tok_obj (let_tokens ! 4)) x_ctx ''Identifier'') ''range'' =
     Some (Arr [pos_at 9, pos_at 4])"
    by (simp add: start_then_end_def 2 startNode_token endNode_opened returned_field_def
        field_def e mk_token_def pos_at_def)
  have l: "length let_tokens = 5" "let_tokens \<noteq> []"
    by (simp_all add: let_tokens_def)
  have c: "stream (ctx_of let_tokens) =
      stream_of (Some (mk_token ''let'' ''Keyword'' 0)) (tl let_tokens)"
    by (simp add: ctx_of_def let_tokens_def)
  have 5: "token (ctx_at let_tokens 5) = None"
    using advance_stream_of [OF c, of 4]
    by (simp add: ctx_at_def eval_nat_numeral let_tokens_def)
  have "end_token (ctx_at let_tokens 5) = Some (let_tokens ! min 5 (length let_tokens - 1))"
    by (rule end_token_ctx_at) (rule l)
  then have e5: "end_pos (ctx_at let_tokens 5) = pos_at 9"
    by (simp add: end_pos_def l 2 mk_token_def pos_at_def)
  have s5: "startNode (ctx_at let_tokens 5) Undefined = Inr (opened_node Undefined Undefined)"
    by (simp add: startNode_default startNode_object field_def 5)
  have 6: "returned_field
     (start_then_end (ctx_at let_tokens 5) Undefined (ctx_at let_tokens 5) ''Identifier'')
     ''range'' = Some (Arr [Undefined, pos_at 9])"
    by (simp add: start_then_end_def s5 endNode_opened returned_field_def field_def e5)
  from 1 2(1) 3 4 5 6 show ?thesis by simp
qed

text \<open>
  C4, as amended: a node has exactly one range entry after \<open>startNode\<close>; \<open>endNode\<close> adds
  exactly one entry to the range of its base, so the node has exactly two after an
  \<open>endNode\<close> on a node that \<open>startNode\<close> returned, and after a \<open>makeNode\<close> whose partial
  object has no \<open>range\<close> key. For a node opened on a token of the stream that is not after
  the cursor at the close (the current token when no seed is given, or such a token given
  as the seed), the first entry is the start of that token and the second the start of the
  token current at the close, or of the last token the stream produced when none is
  current then: with the cursor at place \<open>m\<close> of the token list that is the token at place
  \<open>m\<close>, or at the last place of the list when the list ends before, which is never before
  the place of the opening token; with no call of \<open>next()\<close> in between (as in \<open>makeNode\<close>)
  the two entries are equal.
\<close>

theorem node_range_entries:
  "(\<forall>n. startNode c seed = Inr n \<longrightarrow>
      range_length n = Some 1 \<and>
      (\<exists>n'. endNode c' n T = Inr n' \<and> range_length n' = Some 2)) \<and>
   (partial ''range'' = None \<longrightarrow>
      (\<exists>n'. makeNode c partial T = Inr n' \<and> range_length n' = Some 2 \<and>
         (\<forall>t. token c = Some t \<longrightarrow>
            n' ''range'' = Some (Arr [pos_obj (tok_start t), pos_obj (tok_start t)])))) \<and>
   (token c = Some t \<and> token (advance k c) = Some t' \<longrightarrow>
      (\<exists>n n'. startNode c Undefined = Inr n \<and> endNode (advance k c) n T = Inr n' \<and>
         n' ''range'' = Some (Arr [pos_obj (tok_start t), pos_obj (tok_start t')]))) \<and>
   (base ''range'' = Some (Arr xs) \<longrightarrow>
      (\<exists>n'. endNode c base T = Inr n' \<and> range_length n' = Some (Suc (length xs)))) \<and>
   (i < length ts \<longrightarrow>
      (\<exists>n n'. startNode (ctx_at ts i) Undefined = Inr n \<and>
         endNode (ctx_at ts (i + j)) n T = Inr n' \<and>
         n' ''range'' =
           Some (Arr [pos_obj (tok_start (ts ! i)),
                      pos_obj (tok_start (ts ! min (i + j) (length ts - 1)))]) \<and>
         i \<le> min (i + j) (length ts - 1) \<and> min (i + j) (length ts - 1) < length ts)) \<and>
   (i < length ts \<and> i \<le> m \<longrightarrow>
      (\<exists>n n'. startNode c (tok_obj (ts ! i)) = Inr n \<and>
         endNode (ctx_at ts m) n T = Inr n' \<and>
         n' ''range'' =
           Some (Arr [pos_obj (tok_start (ts ! i)),
                      pos_obj (tok_start (ts ! min m (length ts - 1)))]) \<and>
         i \<le> min m (length ts - 1) \<and> min m (length ts - 1) < length ts))"
proof (intro conjI allI impI)
  fix n assume s: "startNode c seed = Inr n"
  then obtain v p where n: "n = opened_node v p"
    using startNode_shape by blast
  show "range_length n = Some 1"
    by (simp add: n range_length_opened)
  show "\<exists>n'. endNode c' n T = Inr n' \<and> range_length n' = Some 2"
    by (simp add: n endNode_opened range_length_def)
next
  assume "partial ''range'' = None"
  then show "\<exists>n'. makeNode c partial T = Inr n' \<and> range_length n' = Some 2 \<and>
         (\<forall>t. token c = Some t \<longrightarrow>
            n' ''range'' = Some (Arr [pos_obj (tok_start t), pos_obj (tok_start t)]))"
    by (simp add: makeNode_returns range_length_def start_pos_def end_pos_def end_token_def)
next
  assume a: "token c = Some t \<and> token (advance k c) = Some t'"
  then have s: "startNode c Undefined =
      Inr (opened_node (Str (tok_value t)) (pos_obj (tok_start t)))"
    by (simp add: startNode_default startNode_token)
  from a have e: "end_pos (advance k c) = pos_obj (tok_start t')"
    by (simp add: end_pos_def end_token_def)
  show "\<exists>n n'. startNode c Undefined = Inr n \<and> endNode (advance k c) n T = Inr n' \<and>
         n' ''range'' = Some (Arr [pos_obj (tok_start t), pos_obj (tok_start t')])"
    by (simp add: s endNode_opened e)
next
  assume "base ''range'' = Some (Arr xs)"
  then show "\<exists>n'. endNode c base T = Inr n' \<and> range_length n' = Some (Suc (length xs))"
    by (simp add: endNode_array range_length_def)
next
  assume i: "i < length ts"
  then have ne: "ts \<noteq> []" by auto
  have s: "startNode (ctx_at ts i) Undefined =
      Inr (opened_node (Str (tok_value (ts ! i))) (pos_obj (tok_start (ts ! i))))"
    by (simp add: startNode_default startNode_token token_ctx_at [OF i])
  have e: "end_pos (ctx_at ts (i + j)) = pos_obj (tok_start (ts ! min (i + j) (length ts - 1)))"
    by (simp add: end_pos_def end_token_ctx_at [OF ne])
  from i have o: "i \<le> min (i + j) (length ts - 1)" "min (i + j) (length ts - 1) < length ts"
    by simp_all
  show "\<exists>n n'. startNode (ctx_at ts i) Undefined = Inr n \<and>
         endNode (ctx_at ts (i + j)) n T = Inr n' \<and>
         n' ''range'' =
           Some (Arr [pos_obj (tok_start (ts ! i)),
                      pos_obj (tok_start (ts ! min (i + j) (length ts - 1)))]) \<and>
         i \<le> min (i + j) (length ts - 1) \<and> min (i + j) (length ts - 1) < length ts"
    using o by (simp add: s endNode_opened e)
next
  assume a: "i < length ts \<and> i \<le> m"
  then have ne: "ts \<noteq> []" by auto
  have e: "end_pos (ctx_at ts m) = pos_obj (tok_start (ts ! min m (length ts - 1)))"
    by (simp add: end_pos_def end_token_ctx_at [OF ne])
  from a have o: "i \<le> min m (length ts - 1)" "min m (length ts - 1) < length ts"
    by auto
  show "\<exists>n n'. startNode c (tok_obj (ts ! i)) = Inr n \<and>
         endNode (ctx_at ts m) n T = Inr n' \<and>
         n' ''range'' =
           Some (Arr [pos_obj (tok_start (ts ! i)),
                      pos_obj (tok_start (ts ! min m (length ts - 1)))]) \<and>
         i \<le> min m (length ts - 1) \<and> min m (length ts - 1) < length ts"
    using o by (simp add: startNode_token endNode_opened e)
qed

theorem node_range_entries_witness:
  "startNode x_ctx Undefined = Inr (opened_node (Str ''x'') (pos_at 4)) \<and>
   range_length (opened_node (Str ''x'') (pos_at 4)) = Some 1 \<and>
   (\<exists>n'. endNode (advance (Suc 0) x_ctx) (opened_node (Str ''x'') (pos_at 4)) ''Identifier'' = Inr n' \<and>
      range_length n' = Some 2) \<and>
   [''value'' \<mapsto> Str ''x''] ''range'' = None \<and>
   (\<exists>n'. makeNode x_ctx [''value'' \<mapsto> Str ''x''] ''Identifier'' = Inr n' \<and>
      range_length n' = Some 2) \<and>
   token x_ctx = Some (mk_token ''x'' ''Identifier'' 4) \<and>
   token (advance (Suc 0) x_ctx) = Some (mk_token ''='' ''Punctuator'' 6) \<and>
   (\<exists>n n'. startNode x_ctx Undefined = Inr n \<and>
      endNode (advance (Suc 0) x_ctx) n ''Identifier'' = Inr n' \<and>
      n' ''range'' = Some (Arr [pos_at 4, pos_at 6])) \<and>
   [''range'' \<mapsto> Arr [pos_at 0]] ''range'' = Some (Arr [pos_at 0]) \<and>
   (\<exists>n'. endNode x_ctx [''range'' \<mapsto> Arr [pos_at 0]] ''Identifier'' = Inr n' \<and>
      range_length n' = Some 2) \<and>
   (1::nat) < length let_tokens \<and>
   (\<exists>n n'. startNode (ctx_at let_tokens 1) Undefined = Inr n \<and>
      endNode (ctx_at let_tokens (1 + 7)) n ''Identifier'' = Inr n' \<and>
      n' ''range'' = Some (Arr [pos_at 4, pos_at 9])) \<and>
   (1::nat) \<le> 3 \<and>
   (\<exists>n n'. startNode x_ctx (tok_obj (let_tokens ! 1)) = Inr n \<and>
      endNode (ctx_at let_tokens 3) n ''Identifier'' = Inr n' \<and>
      n' ''range'' = Some (Arr [pos_at 4, pos_at 8]))"
proof -
  have s: "startNode x_ctx Undefined = Inr (opened_node (Str ''x'') (pos_at 4))"
    by (simp add: startNode_default startNode_token token_x_ctx mk_token_def pos_at_def)
  have p: "[''value'' \<mapsto> Str ''x''] ''range'' = None" by simp
  have r: "[''range'' \<mapsto> Arr [pos_at 0]] ''range'' = Some (Arr [pos_at 0])" by simp
  have l: "(1::nat) < length let_tokens"
    by (simp add: let_tokens_def)
  note inst = node_range_entries [where c = x_ctx and seed = Undefined
      and c' = "advance (Suc 0) x_ctx" and T = "''Identifier''"
      and partial = "[''value'' \<mapsto> Str ''x'']" and t = "mk_token ''x'' ''Identifier'' 4"
      and k = "Suc 0" and t' = "mk_token ''='' ''Punctuator'' 6"
      and base = "[''range'' \<mapsto> Arr [pos_at 0]]" and xs = "[pos_at 0]"
      and ts = let_tokens and i = 1 and j = 7 and m = 3]
  note c1 = inst [THEN conjunct1, rule_format, OF s]
  note c2 = inst [THEN conjunct2, THEN conjunct1, rule_format, OF p]
  note c3 = inst [THEN conjunct2, THEN conjunct2, THEN conjunct1, rule_format,
      OF conjI [OF token_x_ctx token_after_x]]
  note c4 = inst [THEN conjunct2, THEN conjunct2, THEN conjunct2, THEN conjunct1, rule_format,
      OF r]
  have l3: "(1::nat) \<le> 3" by simp
  note c5 = inst [THEN conjunct2, THEN conjunct2, THEN conjunct2, THEN conjunct2,
      THEN conjunct1, rule_format, OF l]
  note c6 = inst [THEN conjunct2, THEN conjunct2, THEN conjunct2, THEN conjunct2,
      THEN conjunct2, rule_format, OF conjI [OF l l3]]
  from c1 have a: "range_length (opened_node (Str ''x'') (pos_at 4)) = Some 1 \<and>
   (\<exists>n'. endNode (advance (Suc 0) x_ctx) (opened_node (Str ''x'') (pos_at 4)) ''Identifier'' = Inr n' \<and>
      range_length n' = Some 2)" .
  from c2 have b: "\<exists>n'. makeNode x_ctx [''value'' \<mapsto> Str ''x''] ''Identifier'' = Inr n' \<and>
      range_length n' = Some 2"
    by (elim exE conjE) (intro exI conjI, assumption+)
  have d: "pos_obj (tok_start (mk_token ''x'' ''Identifier'' 4)) = pos_at 4"
    "pos_obj (tok_start (mk_token ''='' ''Punctuator'' 6)) = pos_at 6"
    by (simp_all add: mk_token_def pos_at_def)
  from c3 have c: "\<exists>n n'. startNode x_ctx Undefined = Inr n \<and>
      endNode (advance (Suc 0) x_ctx) n ''Identifier'' = Inr n' \<and>
      n' ''range'' = Some (Arr [pos_at 4, pos_at 6])"
    by (simp only: d)
  from c4 have e: "\<exists>n'. endNode x_ctx [''range'' \<mapsto> Arr [pos_at 0]] ''Identifier'' = Inr n' \<and>
      range_length n' = Some 2"
    by (simp add: numeral_2_eq_2)
  have g: "pos_obj (tok_start (let_tokens ! 1)) = pos_at 4"
    "pos_obj (tok_start (let_tokens ! min (1 + 7) (length let_tokens - 1))) = pos_at 9"
    by (simp_all add: let_tokens_def mk_token_def pos_at_def)
  from c5 have f: "\<exists>n n'. startNode (ctx_at let_tokens 1) Undefined = Inr n \<and>
      endNode (ctx_at let_tokens (1 + 7)) n ''Identifier'' = Inr n' \<and>
      n' ''range'' = Some (Arr [pos_at 4, pos_at 9])"
    unfolding g by (elim exE conjE) (intro exI conjI, assumption+)
  have g3: "pos_obj (tok_start (let_tokens ! min 3 (length let_tokens - 1))) = pos_at 8"
    by (simp add: let_tokens_def mk_token_def pos_at_def)
  from c6 have h: "\<exists>n n'. startNode x_ctx (tok_obj (let_tokens ! 1)) = Inr n \<and>
      endNode (ctx_at let_tokens 3) n ''Identifier'' = Inr n' \<and>
      n' ''range'' = Some (Arr [pos_at 4, pos_at 8])"
    unfolding g g3 by (elim exE conjE) (intro exI conjI, assumption+)
  from s a p b token_x_ctx token_after_x c r e l f l3 h show ?thesis
    by (intro conjI) (elim conjE, assumption)+
qed

text \<open>
  C6: with a current token, \<open>startNode()\<close> followed by \<open>endNode(_, T)\<close> on the same
  context returns a node whose range is the start of that token twice, and whose \<open>Type\<close>
  is \<open>T\<close>.
\<close>

theorem start_then_end_same_position:
  "token c = Some t \<Longrightarrow>
   (\<exists>n n'. startNode c Undefined = Inr n \<and> endNode c n T = Inr n' \<and>
      n' ''range'' = Some (Arr [pos_obj (tok_start t), pos_obj (tok_start t)]) \<and>
      n' ''Type'' = Some (Str T))"
proof -
  assume tk: "token c = Some t"
  have s: "startNode c Undefined = Inr (opened_node (Str (tok_value t)) (pos_obj (tok_start t)))"
    by (simp add: startNode_default startNode_token tk)
  have e: "end_pos c = pos_obj (tok_start t)"
    by (simp add: end_pos_def end_token_def tk)
  show ?thesis
    by (simp add: s endNode_opened e)
qed

theorem start_then_end_same_position_witness:
  "token x_ctx = Some (mk_token ''x'' ''Identifier'' 4) \<and>
   (\<exists>n n'. startNode x_ctx Undefined = Inr n \<and> endNode x_ctx n ''Identifier'' = Inr n' \<and>
      n' ''range'' = Some (Arr [pos_at 4, pos_at 4]) \<and>
      n' ''Type'' = Some (Str ''Identifier''))"
  using start_then_end_same_position [OF token_x_ctx, of "''Identifier''"] token_x_ctx
  by (simp add: mk_token_def pos_at_def)

theorem startNode_opens_node_witness:
  "startNode x_ctx Undefined = Inr (opened_node (Str ''x'') (pos_at 4)) \<and>
   startNode x_ctx (tok_obj (mk_token ''let'' ''Keyword'' 0)) =
     Inr (opened_node (Str ''let'') (pos_at 0)) \<and>
   startNode (ctx_of []) Undefined = Inr (opened_node Undefined Undefined) \<and>
   opened_node (Str ''x'') (pos_at 4) ''range'' = Some (Arr [pos_at 4])"
  using startNode_opens_node [of x_ctx "mk_token ''let'' ''Keyword'' 0" Map.empty "Str ''x''" "pos_at 4"]
    startNode_opens_node [of "ctx_of []" "mk_token ''let'' ''Keyword'' 0" Map.empty "Str ''x''" "pos_at 4"]
  by (simp add: token_x_ctx mk_token_def pos_at_def ctx_of_def)

theorem syntaxError_composition_witness:
  "token plus_ctx = Some (mk_token ''+'' ''Operator'' 0) \<and>
   tok_value (mk_token ''+'' ''Operator'' 0) = ''+'' \<and>
   tok_type (mk_token ''+'' ''Operator'' 0) = ''Operator'' \<and>
   (\<forall>m d tk f i. sublist m (plainErrorString m d tk f i)) \<and>
   expect plainErrorString plus_ctx (Some [''let'']) None =
     (Inl (SyntaxError ''Unexpected value\<newline>Expected: let\<newline>  at unknown (unknown)''), plus_ctx) \<and>
   sublist ''Expected: let'' ''Unexpected value\<newline>Expected: let\<newline>  at unknown (unknown)''"
proof -
  have t: "token plus_ctx = Some (mk_token ''+'' ''Operator'' 0)"
    by (simp add: plus_ctx_def ctx_of_def)
  have v: "tok_value (mk_token ''+'' ''Operator'' 0) = ''+''"
    "tok_type (mk_token ''+'' ''Operator'' 0) = ''Operator''"
    by (simp_all add: mk_token_def)
  have g: "\<forall>m d tk f i. sublist m (plainErrorString m d tk f i)"
    by (simp add: plain_embeds)
  have f: "filename plus_ctx = None"
    by (simp add: plus_ctx_def ctx_of_def)
  note inst = syntaxError_composition [of plainErrorString plus_ctx "''Expected: let''"
      "Some ''Unexpected value''" "mk_token ''+'' ''Operator'' 0" None]
  from inst t v have e: "expect plainErrorString plus_ctx (Some [''let'']) None =
        (Inl (SyntaxError
               (plainErrorString ''Expected: let'' ''Unexpected value''
                  (Some (mk_token ''+'' ''Operator'' 0))
                  (or_default (filename plus_ctx) ''unknown'') ''unknown'')), plus_ctx)"
    by blast
  from inst t v g have "\<exists>text. fst (expect plainErrorString plus_ctx (Some [''let'']) None) =
        Inl (SyntaxError text) \<and> sublist ''Expected: let'' text"
    by blast
  with e have s: "sublist ''Expected: let''
      (plainErrorString ''Expected: let'' ''Unexpected value''
                  (Some (mk_token ''+'' ''Operator'' 0))
                  (or_default (filename plus_ctx) ''unknown'') ''unknown'')"
    by simp
  have x: "plainErrorString ''Expected: let'' ''Unexpected value''
                  (Some (mk_token ''+'' ''Operator'' 0))
                  (or_default (filename plus_ctx) ''unknown'') ''unknown'' =
      ''Unexpected value\<newline>Expected: let\<newline>  at unknown (unknown)''"
    by (simp add: plainErrorString_def or_default_def f)
  from t v g e s show ?thesis by (simp only: x) simp
qed

subsection \<open>The node builder on a store\<close>

lemma concat_start_store_grows:
  "concat_start_store h r p = (res, h') \<Longrightarrow> \<exists>ys. h' = h @ ys"
  by (auto simp: concat_start_store_def alloc_def Let_def
      split: hval.splits option.splits cell.splits)

lemma endNode_store_grows:
  "endNode_store c h base T = (res, h') \<Longrightarrow> \<exists>ys. h' = h @ ys"
  by (auto simp: endNode_store_def alloc_def Let_def
      split: option.splits cell.splits prod.splits sum.splits
      dest!: concat_start_store_grows)

lemma lookup_append: "a < length h \<Longrightarrow> lookup (h @ ys) a = lookup h a"
  by (simp add: lookup_def nth_append)

lemma endNode_store_array:
  assumes b: "lookup h base = Some (ObjectCell m)"
    and r: "m ''range'' = Some (HRef a)"
    and x: "lookup h a = Some (ArrayCell xs)"
  shows "endNode_store c h base T =
     (Inr (length h + 2),
      h @ [ArrayCell (xs @ [end_hpos c]),
           ClosureCell (HRef (length h)),
           ObjectCell
             (([''toString'' \<mapsto> HRef (length h + 1)] ++ restrict_map m (- {''toString''}))
                (''Type'' \<mapsto> HStr T, ''range'' \<mapsto> HRef (length h)))])"
  by (simp add: endNode_store_def concat_start_store_def alloc_def hfield_def b r x
      end_hpos_def split: option.splits)

text \<open>
  C10: \<open>endNode(base, Type)\<close> does not write to its input. Every cell that exists before
  the call is the same after it, the returned node is a new cell, and when the range of
  the base is an array, the range of the new node is a new array (the old entries with
  the end position appended) while the array and the object of the base are as they were;
  the new node carries the fields of the base other than \<open>toString\<close>, \<open>Type\<close> and \<open>range\<close>.
\<close>

theorem endNode_leaves_base_untouched:
  "endNode_store c h base T = (res, h') \<Longrightarrow>
   take (length h) h' = h \<and>
   (\<forall>a < length h. lookup h' a = lookup h a) \<and>
   (\<forall>node. res = Inr node \<longrightarrow> length h \<le> node \<and> node < length h') \<and>
   (\<forall>m a xs. lookup h base = Some (ObjectCell m) \<and> m ''range'' = Some (HRef a) \<and>
        lookup h a = Some (ArrayCell xs) \<longrightarrow>
      (\<exists>node m' a'. res = Inr node \<and> lookup h' node = Some (ObjectCell m') \<and>
         m' ''range'' = Some (HRef a') \<and> length h \<le> a' \<and>
         lookup h' a' = Some (ArrayCell (xs @ [end_hpos c])) \<and>
         m' ''Type'' = Some (HStr T) \<and>
         (\<forall>k. k \<notin> {''toString'', ''Type'', ''range''} \<longrightarrow> m' k = m k) \<and>
         lookup h' a = Some (ArrayCell xs) \<and>
         lookup h' base = Some (ObjectCell m)))"
proof (intro conjI allI impI)
  assume e: "endNode_store c h base T = (res, h')"
  then obtain ys where ys: "h' = h @ ys"
    using endNode_store_grows by blast
  show "take (length h) h' = h" by (simp add: ys)
  show "lookup h' a = lookup h a" if "a < length h" for a
    using that by (simp add: ys lookup_append)
  show "length h \<le> node" if "res = Inr node" for node
    using e that
    by (auto simp: endNode_store_def concat_start_store_def alloc_def Let_def
        split: option.splits cell.splits prod.splits sum.splits hval.splits)
  show "node < length h'" if "res = Inr node" for node
    using e that
    by (auto simp: endNode_store_def concat_start_store_def alloc_def Let_def
        split: option.splits cell.splits prod.splits sum.splits hval.splits)
  fix m a xs
  assume p: "lookup h base = Some (ObjectCell m) \<and> m ''range'' = Some (HRef a) \<and>
        lookup h a = Some (ArrayCell xs)"
  then have la: "a < length h" and lb: "base < length h"
    by (auto simp: lookup_def split: if_splits)
  from p have p1: "lookup h base = Some (ObjectCell m)" and p2: "m ''range'' = Some (HRef a)"
    and p3: "lookup h a = Some (ArrayCell xs)"
    by simp_all
  from e endNode_store_array [OF p1 p2 p3, of c T] have res: "res = Inr (length h + 2)" and
    h': "h' = h @ [ArrayCell (xs @ [end_hpos c]),
           ClosureCell (HRef (length h)),
           ObjectCell
             (([''toString'' \<mapsto> HRef (length h + 1)] ++ restrict_map m (- {''toString''}))
                (''Type'' \<mapsto> HStr T, ''range'' \<mapsto> HRef (length h)))]"
    by simp_all
  let ?m' = "([''toString'' \<mapsto> HRef (length h + 1)] ++ restrict_map m (- {''toString''}))
                (''Type'' \<mapsto> HStr T, ''range'' \<mapsto> HRef (length h))"
  have 1: "lookup h' (length h + 2) = Some (ObjectCell ?m')"
    by (simp add: h' lookup_def nth_append)
  have 2: "lookup h' (length h) = Some (ArrayCell (xs @ [end_hpos c]))"
    by (simp add: h' lookup_def nth_append)
  have 3: "lookup h' a = Some (ArrayCell xs)" "lookup h' base = Some (ObjectCell m)"
    using p la lb by (simp_all add: h' lookup_append)
  have 4: "\<forall>k. k \<notin> {''toString'', ''Type'', ''range''} \<longrightarrow> ?m' k = m k"
    by (simp add: map_add_def restrict_map_def split: option.splits)
  have 5: "?m' ''range'' = Some (HRef (length h))" "?m' ''Type'' = Some (HStr T)"
    by simp_all
  show "\<exists>node m' a'. res = Inr node \<and> lookup h' node = Some (ObjectCell m') \<and>
         m' ''range'' = Some (HRef a') \<and> length h \<le> a' \<and>
         lookup h' a' = Some (ArrayCell (xs @ [end_hpos c])) \<and>
         m' ''Type'' = Some (HStr T) \<and>
         (\<forall>k. k \<notin> {''toString'', ''Type'', ''range''} \<longrightarrow> m' k = m k) \<and>
         lookup h' a = Some (ArrayCell xs) \<and>
         lookup h' base = Some (ObjectCell m)"
    using res 1 2 3 4 5
    by (intro exI [of _ "length h + 2"] exI [of _ ?m'] exI [of _ "length h"] conjI)
      (assumption | simp)+
qed

lemma token_eq_ctx: "token eq_ctx = Some (mk_token ''='' ''Punctuator'' 6)"
  unfolding eq_ctx_def by (rule token_after_x)

theorem endNode_leaves_base_untouched_witness:
  "lookup store1 (Suc 0) = Some (ObjectCell node0) \<and>
   node0 ''range'' = Some (HRef 0) \<and>
   lookup store1 0 = Some (ArrayCell [hpos_at 4]) \<and>
   take 2 (snd (endNode_store eq_ctx store1 (Suc 0) ''Identifier'')) = store1 \<and>
   (\<exists>node m' a'.
      fst (endNode_store eq_ctx store1 (Suc 0) ''Identifier'') = Inr node \<and> 2 \<le> node \<and>
      lookup (snd (endNode_store eq_ctx store1 (Suc 0) ''Identifier'')) node =
        Some (ObjectCell m') \<and>
      m' ''range'' = Some (HRef a') \<and> 2 \<le> a' \<and>
      lookup (snd (endNode_store eq_ctx store1 (Suc 0) ''Identifier'')) a' =
        Some (ArrayCell [hpos_at 4, hpos_at 6]) \<and>
      m' ''Type'' = Some (HStr ''Identifier'') \<and>
      m' ''value'' = Some (HStr ''x'')) \<and>
   lookup (snd (endNode_store eq_ctx store1 (Suc 0) ''Identifier'')) 0 =
     Some (ArrayCell [hpos_at 4]) \<and>
   lookup (snd (endNode_store eq_ctx store1 (Suc 0) ''Identifier'')) (Suc 0) =
     Some (ObjectCell node0)"
proof -
  let ?r = "endNode_store eq_ctx store1 (Suc 0) ''Identifier''"
  have b: "lookup store1 (Suc 0) = Some (ObjectCell node0)"
    by (simp add: lookup_def store1_def)
  have r: "node0 ''range'' = Some (HRef 0)"
    by (simp add: node0_def)
  have x: "lookup store1 0 = Some (ArrayCell [hpos_at 4])"
    by (simp add: lookup_def store1_def)
  have p: "end_hpos eq_ctx = hpos_at 6"
    by (simp add: end_hpos_def end_token_def token_eq_ctx mk_token_def hpos_at_def)
  have l: "length store1 = 2"
    by (simp add: store1_def)
  have v: "node0 ''value'' = Some (HStr ''x'')"
    by (simp add: node0_def)
  have e: "?r = (fst ?r, snd ?r)" by simp
  note inst = endNode_leaves_base_untouched [OF e]
  from inst have t: "take (length store1) (snd ?r) = store1"
    by (elim conjE)
  from b r x have h: "lookup store1 (Suc 0) = Some (ObjectCell node0) \<and>
      node0 ''range'' = Some (HRef 0) \<and> lookup store1 0 = Some (ArrayCell [hpos_at 4])"
    by (intro conjI)
  note arr = inst [THEN conjunct2, THEN conjunct2, THEN conjunct2, rule_format, OF h]
  from arr obtain node m' a' where
    n: "fst ?r = Inr node" "lookup (snd ?r) node = Some (ObjectCell m')"
      "m' ''range'' = Some (HRef a')" "length store1 \<le> a'"
      "lookup (snd ?r) a' = Some (ArrayCell ([hpos_at 4] @ [end_hpos eq_ctx]))"
      "m' ''Type'' = Some (HStr ''Identifier'')"
      "\<forall>k. k \<notin> {''toString'', ''Type'', ''range''} \<longrightarrow> m' k = node0 k"
      "lookup (snd ?r) 0 = Some (ArrayCell [hpos_at 4])"
      "lookup (snd ?r) (Suc 0) = Some (ObjectCell node0)"
    by (elim exE conjE)
  note fresh = inst [THEN conjunct2, THEN conjunct2, THEN conjunct1, rule_format, OF n(1)]
  from fresh have f: "length store1 \<le> node"
    by (elim conjE)
  from n(7) v have v': "m' ''value'' = Some (HStr ''x'')"
    by simp
  have "\<exists>node m' a'.
      fst ?r = Inr node \<and> 2 \<le> node \<and> lookup (snd ?r) node = Some (ObjectCell m') \<and>
      m' ''range'' = Some (HRef a') \<and> 2 \<le> a' \<and>
      lookup (snd ?r) a' = Some (ArrayCell [hpos_at 4, hpos_at 6]) \<and>
      m' ''Type'' = Some (HStr ''Identifier'') \<and>
      m' ''value'' = Some (HStr ''x'')"
    using n(1-6) f v' by (intro exI [of _ node] exI [of _ m'] exI [of _ a']) (simp add: l p)
  with b r x t n(8,9) show ?thesis
    by (simp only: l)
qed

text \<open>
  The two models of \<open>endNode\<close> agree: on a store whose base object represents the object
  the pure model is given, the store model throws when the pure model throws, and
  otherwise returns the address of a node that represents the node the pure model returns,
  in a store that extends the old one.
\<close>

lemma lookup_grows: "lookup h a = Some x \<Longrightarrow> lookup (h @ ys) a = Some x"
  by (auto simp: lookup_def nth_append split: if_splits)

lemma repr_grows: "repr h x v \<Longrightarrow> repr (h @ ys) x v"
proof (induction rule: repr.induct)
  case (repr_array a xs vs)
  then show ?case
    by (auto intro!: repr.repr_array lookup_grows elim: list_all2_mono)
next
  case (repr_object a m mv)
  then show ?case
    by (intro repr.repr_object [where m = m] lookup_grows) blast+
next
  case (repr_closure a r v)
  then show ?case
    by (auto intro: repr.repr_closure lookup_grows)
qed (auto intro: repr.intros)

lemma repr_fields_grows: "repr_fields h m mv \<Longrightarrow> repr_fields (h @ ys) m mv"
  unfolding repr_fields_def by (meson repr_grows)


lemma repr_field: "repr_fields h m mv \<Longrightarrow> repr h (hfield m k) (field mv k)"
  unfolding repr_fields_def hfield_def field_def
  by (metis option.simps(4,5) repr_undefined)

lemma repr_end: "repr h (end_hpos c) (end_pos c)"
  by (auto simp: end_hpos_def end_pos_def intro: repr.intros split: option.splits)

lemma concat_start_refines:
  assumes "repr h x v"
  shows "case concat_start v (map_option tok_start (end_token c)) of
           Inl e \<Rightarrow> concat_start_store h x (map_option tok_start (end_token c)) = (Inl e, h)
         | Inr rv \<Rightarrow>
             (\<exists>rng ys. concat_start_store h x (map_option tok_start (end_token c)) =
                          (Inr rng, h @ ys) \<and> repr (h @ ys) rng rv)"
  using assms
proof (cases rule: repr.cases)
  case (repr_array a xs vs)
  let ?ys = "[ArrayCell (xs @ [end_hpos c])]"
  have 1: "concat_start_store h x (map_option tok_start (end_token c)) =
      (Inr (HRef (length h)), h @ ?ys)"
    by (simp add: concat_start_store_def repr_array alloc_def end_hpos_def split: option.splits)
  have "list_all2 (repr (h @ ?ys)) xs vs"
    using repr_array(4) by (rule list_all2_mono) (rule repr_grows)
  then have "list_all2 (repr (h @ ?ys)) (xs @ [end_hpos c]) (vs @ [end_pos c])"
    by (intro list_all2_appendI) (simp_all add: repr_end)
  then have 2: "repr (h @ ?ys) (HRef (length h)) (Arr (vs @ [end_pos c]))"
    by (intro repr.repr_array [where xs = "xs @ [end_hpos c]"]) (simp_all add: lookup_def)
  show ?thesis
    using 1 2 by (simp add: concat_start_def repr_array end_pos_def split: option.splits)
next
  case (repr_str s)
  have "concat_start_store h x (map_option tok_start (end_token c)) =
      (Inr (HStr (s @ (case map_option tok_start (end_token c) of
                         None \<Rightarrow> ''undefined'' | Some q \<Rightarrow> ''[object Object]''))), h @ [])"
    by (simp add: concat_start_store_def repr_str)
  then show ?thesis
    unfolding repr_str concat_start_def jsval.case sum.case
    by (intro exI conjI) (assumption, rule repr.repr_str)
qed (simp_all add: concat_start_def concat_start_store_def pos_obj_def)


lemma hspread_single:
  "[k \<mapsto> v] ++ restrict_map m (- {k}) = (restrict_map m (- {k}))(k \<mapsto> v)"
  by (rule ext) (simp add: map_add_def restrict_map_def split: option.splits)

lemma endNode_store_unfold:
  "lookup h base = Some (ObjectCell m) \<Longrightarrow>
   endNode_store c h base T =
     (case concat_start_store h (hfield m ''range'') (map_option tok_start (end_token c)) of
        (Inl e, h1) \<Rightarrow> (Inl e, h1)
      | (Inr rng, h1) \<Rightarrow>
          (Inr (length h1 + 1),
           h1 @ [ClosureCell rng,
                 ObjectCell ((restrict_map m (- {''toString''}))
                   (''toString'' \<mapsto> HRef (length h1), ''Type'' \<mapsto> HStr T,
                    ''range'' \<mapsto> rng))]))"
  by (simp add: endNode_store_def hfield_def alloc_def Let_def hspread_single
      split: prod.splits sum.splits)

lemma new_node_repr:
  assumes f: "repr_fields h1 m bv" and r: "repr h1 rng rv"
  shows "repr (h1 @ [ClosureCell rng,
                 ObjectCell ((restrict_map m (- {''toString''}))
                   (''toString'' \<mapsto> HRef (length h1), ''Type'' \<mapsto> HStr T,
                    ''range'' \<mapsto> rng))])
           (HRef (length h1 + 1))
           (Obj ((restrict_map bv (- {''toString''}))
                   (''toString'' \<mapsto> Accessor rv, ''Type'' \<mapsto> Str T, ''range'' \<mapsto> rv)))"
    (is "repr ?h3 _ (Obj ?nv)")
proof (rule repr.repr_object)
  let ?m' = "(restrict_map m (- {''toString''}))
               (''toString'' \<mapsto> HRef (length h1), ''Type'' \<mapsto> HStr T, ''range'' \<mapsto> rng)"
  show "lookup ?h3 (length h1 + 1) = Some (ObjectCell ?m')"
    by (simp add: lookup_def nth_append)
  have r3: "repr ?h3 rng rv"
    using r by (rule repr_grows)
  have f3: "repr_fields ?h3 m bv"
    using f by (rule repr_fields_grows)
  have c3: "repr ?h3 (HRef (length h1)) (Accessor rv)"
    by (rule repr.repr_closure [where r = rng]) (simp_all add: lookup_def nth_append r3)
  show "\<forall>k. (?m' k = None \<and> ?nv k = None) \<or>
          (\<exists>x v. ?m' k = Some x \<and> ?nv k = Some v \<and> repr ?h3 x v)"
  proof
    fix k
    consider "k = ''range''" | "k = ''Type''" | "k = ''toString''"
      | "k \<noteq> ''range''" "k \<noteq> ''Type''" "k \<noteq> ''toString''"
      by blast
    then show "(?m' k = None \<and> ?nv k = None) \<or>
          (\<exists>x v. ?m' k = Some x \<and> ?nv k = Some v \<and> repr ?h3 x v)"
    proof cases
      case 1
      then show ?thesis using r3 by simp
    next
      case 2
      then show ?thesis by (simp add: repr.repr_str)
    next
      case 3
      then show ?thesis using c3 by simp
    next
      case 4
      then show ?thesis
        using f3 [unfolded repr_fields_def, rule_format, of k]
        by (simp add: restrict_map_def)
    qed
  qed
qed

lemma endNode_store_refines:
  assumes b: "lookup h base = Some (ObjectCell m)" and f: "repr_fields h m bv"
  shows "case endNode c bv T of
           Inl e \<Rightarrow> endNode_store c h base T = (Inl e, h)
         | Inr nv \<Rightarrow>
             (\<exists>node ys. endNode_store c h base T = (Inr node, h @ ys) \<and>
                repr (h @ ys) (HRef node) (Obj nv))"
proof (cases "concat_start (field bv ''range'') (map_option tok_start (end_token c))")
  case (Inl e)
  with concat_start_refines [OF repr_field [OF f], of "''range''" c]
  have "concat_start_store h (hfield m ''range'') (map_option tok_start (end_token c)) = (Inl e, h)"
    by simp
  then show ?thesis
    by (simp add: endNode_unfold Inl endNode_store_unfold [OF b])
next
  case (Inr rv)
  with concat_start_refines [OF repr_field [OF f], of "''range''" c]
  obtain rng ys where
    s: "concat_start_store h (hfield m ''range'') (map_option tok_start (end_token c)) =
          (Inr rng, h @ ys)" and
    r: "repr (h @ ys) rng rv"
    by auto
  have f1: "repr_fields (h @ ys) m bv"
    using f by (rule repr_fields_grows)
  have "endNode_store c h base T =
      (Inr (length (h @ ys) + 1),
       h @ (ys @ [ClosureCell rng,
                 ObjectCell ((restrict_map m (- {''toString''}))
                   (''toString'' \<mapsto> HRef (length (h @ ys)), ''Type'' \<mapsto> HStr T,
                    ''range'' \<mapsto> rng))]))"
    by (simp add: endNode_store_unfold [OF b] s)
  moreover have "repr (h @ (ys @ [ClosureCell rng,
                 ObjectCell ((restrict_map m (- {''toString''}))
                   (''toString'' \<mapsto> HRef (length (h @ ys)), ''Type'' \<mapsto> HStr T,
                    ''range'' \<mapsto> rng))]))
           (HRef (length (h @ ys) + 1))
           (Obj ((restrict_map bv (- {''toString''}))
                   (''toString'' \<mapsto> Accessor rv, ''Type'' \<mapsto> Str T, ''range'' \<mapsto> rv)))"
    using new_node_repr [OF f1 r, of T] by (simp only: append_assoc)
  ultimately show ?thesis
    unfolding endNode_unfold Inr sum.case by blast
qed

end
